theory Spec2Isabelle
  imports Main "HOL-Library.Multiset" "HOL-Library.Product_Lexorder"
begin

section \<open>The table dbo.co_trl\<close>

text \<open>
  Modelled from the spec: the columns of the table \<^verbatim>\<open>dbo.co_trl\<close>. The source only ever
  writes \<^verbatim>\<open>SELECT *\<close>, the table's declaration is not part of the repository. The spec's
  data model lists eight fields and says which of them are nullable: a nullable column
  is an \<open>option\<close> (\<open>None\<close> is SQL's NULL), the others are plain values. The flag
  \<open>is_extrapolated\<close> is a nullable boolean (a \<^verbatim>\<open>bit\<close>: the literals 0 and 1 of the
  queries are \<open>False\<close> and \<open>True\<close>), \<open>acq_date\<close> is a timestamp, read as an integer
  number of ticks. A table is a list of rows: SQL tables are bags, so two equal rows may
  both be there.
\<close>

record co_trl =
  client_id :: int
  reference_year :: int
  trl_id :: int
  is_extrapolated :: "bool option"
  rationale :: "string option"
  source :: "string option"
  manual_review_quality_id :: "int option"
  acq_date :: int

type_synonym dbo_co_trl = "co_trl list"

section \<open>SQL's three-valued logic\<close>

text \<open>
  A SQL condition is TRUE, FALSE or UNKNOWN: \<open>Some True\<close>, \<open>Some False\<close>, \<open>None\<close>. A
  comparison with NULL is UNKNOWN; \<^verbatim>\<open>WHERE\<close>, \<^verbatim>\<open>ON\<close>, \<^verbatim>\<open>HAVING\<close> and \<^verbatim>\<open>CASE WHEN\<close>
  take a row only when the condition is TRUE. Strings are compared as they are written
  (a binary collation).
\<close>

type_synonym sql_bool = "bool option"

definition sql_eq :: "'a option \<Rightarrow> 'a option \<Rightarrow> sql_bool" where
  "sql_eq a b = (case a of None \<Rightarrow> None | Some x \<Rightarrow> (case b of None \<Rightarrow> None | Some y \<Rightarrow> Some (x = y)))"

definition sql_neq :: "'a option \<Rightarrow> 'a option \<Rightarrow> sql_bool" where
  "sql_neq a b = (case a of None \<Rightarrow> None | Some x \<Rightarrow> (case b of None \<Rightarrow> None | Some y \<Rightarrow> Some (x \<noteq> y)))"

definition sql_gt :: "nat \<Rightarrow> nat \<Rightarrow> sql_bool" where
  "sql_gt a b = Some (b < a)"

definition sql_and :: "sql_bool \<Rightarrow> sql_bool \<Rightarrow> sql_bool" where
  "sql_and p q =
     (if p = Some False \<or> q = Some False then Some False
      else if p = Some True \<and> q = Some True then Some True
      else None)"

definition sql_or :: "sql_bool \<Rightarrow> sql_bool \<Rightarrow> sql_bool" where
  "sql_or p q =
     (if p = Some True \<or> q = Some True then Some True
      else if p = Some False \<and> q = Some False then Some False
      else None)"

definition is_null :: "'a option \<Rightarrow> sql_bool" where
  "is_null a = Some (a = None)"

definition is_not_null :: "'a option \<Rightarrow> sql_bool" where
  "is_not_null a = Some (a \<noteq> None)"

definition holds :: "sql_bool \<Rightarrow> bool" where
  "holds p = (p = Some True)"

definition sql_where :: "('a \<Rightarrow> sql_bool) \<Rightarrow> 'a list \<Rightarrow> 'a list" where
  "sql_where cond rows = filter (\<lambda>r. holds (cond r)) rows"

definition sql_join :: "('a \<Rightarrow> 'b \<Rightarrow> sql_bool) \<Rightarrow> 'a list \<Rightarrow> 'b list \<Rightarrow> ('a \<times> 'b) list" where
  "sql_join on ts fs = concat (map (\<lambda>t. map (Pair t) (filter (\<lambda>f. holds (on t f)) fs)) ts)"

section \<open>The rules that are one WHERE clause\<close>

text \<open>
  \<^verbatim>\<open>SELECT * FROM dbo.co_trl WHERE is_extrapolated = 0 AND rationale IS NULL\<close>
\<close>

definition invalid_non_extrapolated_null_rationale :: "dbo_co_trl \<Rightarrow> co_trl list" where
  "invalid_non_extrapolated_null_rationale tbl =
     sql_where (\<lambda>r. sql_and (sql_eq (is_extrapolated r) (Some False)) (is_null (rationale r))) tbl"

text \<open>
  \<^verbatim>\<open>SELECT * FROM dbo.co_trl WHERE rationale IS NULL
     AND (is_extrapolated != 1 OR is_extrapolated IS NULL) AND reference_year != 2025\<close>
\<close>

definition null_rationale_not_extrapolated :: "dbo_co_trl \<Rightarrow> co_trl list" where
  "null_rationale_not_extrapolated tbl =
     sql_where (\<lambda>r.
       sql_and
         (sql_and (is_null (rationale r))
            (sql_or (sql_neq (is_extrapolated r) (Some True)) (is_null (is_extrapolated r))))
         (sql_neq (Some (reference_year r)) (Some 2025))) tbl"

text \<open>
  \<^verbatim>\<open>SELECT * FROM dbo.co_trl WHERE is_extrapolated = 1 AND rationale IS NOT NULL\<close>
\<close>

definition extrapolated_rows_with_rationale :: "dbo_co_trl \<Rightarrow> co_trl list" where
  "extrapolated_rows_with_rationale tbl =
     sql_where (\<lambda>r. sql_and (sql_eq (is_extrapolated r) (Some True)) (is_not_null (rationale r))) tbl"

section \<open>Invalid Backward Extrapolation\<close>

text \<open>
  \<^verbatim>\<open>WITH first_year AS (SELECT client_id, MIN(reference_year) AS min_year
       FROM dbo.co_trl GROUP BY client_id)\<close>
  One row (client_id, min_year) for every client of the table; \<open>min_year tbl c\<close> is the
  aggregate over the group of client \<open>c\<close>, which is never empty.
\<close>

definition min_year :: "dbo_co_trl \<Rightarrow> int \<Rightarrow> int" where
  "min_year tbl c = min_list (map reference_year (filter (\<lambda>r. client_id r = c) tbl))"

definition first_year :: "dbo_co_trl \<Rightarrow> (int \<times> int) list" where
  "first_year tbl = map (\<lambda>c. (c, min_year tbl c)) (remdups (map client_id tbl))"

text \<open>
  \<^verbatim>\<open>SELECT t.* FROM dbo.co_trl t
     JOIN first_year f ON t.client_id = f.client_id AND t.reference_year = f.min_year
     WHERE t.is_extrapolated = 1 AND t.trl_id != 9\<close>
\<close>

definition invalid_backward_extrapolation :: "dbo_co_trl \<Rightarrow> co_trl list" where
  "invalid_backward_extrapolation tbl =
     map fst
       (sql_where
          (\<lambda>(t, f). sql_and (sql_eq (is_extrapolated t) (Some True))
                       (sql_neq (Some (trl_id t)) (Some 9)))
          (sql_join
             (\<lambda>t f. sql_and (sql_eq (Some (client_id t)) (Some (fst f)))
                       (sql_eq (Some (reference_year t)) (Some (snd f))))
             tbl (first_year tbl)))"

section \<open>Duplicate TRL Entries\<close>

definition triple :: "co_trl \<Rightarrow> int \<times> int \<times> int" where
  "triple r = (client_id r, reference_year r, trl_id r)"

text \<open>
  \<^verbatim>\<open>WITH duplicates AS (SELECT client_id, reference_year, trl_id FROM dbo.co_trl
       GROUP BY client_id, reference_year, trl_id HAVING COUNT(*) > 1)\<close>
\<close>

definition duplicates :: "dbo_co_trl \<Rightarrow> (int \<times> int \<times> int) list" where
  "duplicates tbl =
     filter (\<lambda>k. holds (sql_gt (length (filter (\<lambda>r. triple r = k) tbl)) 1))
       (remdups (map triple tbl))"

text \<open>
  \<^verbatim>\<open>SELECT t.* FROM dbo.co_trl t JOIN duplicates d
     ON t.client_id = d.client_id AND t.reference_year = d.reference_year
    AND t.trl_id = d.trl_id\<close>
\<close>

definition duplicate_trl_entries :: "dbo_co_trl \<Rightarrow> co_trl list" where
  "duplicate_trl_entries tbl =
     map fst
       (sql_join
          (\<lambda>t d. sql_and
                    (sql_and (sql_eq (Some (client_id t)) (Some (fst d)))
                       (sql_eq (Some (reference_year t)) (Some (fst (snd d)))))
                    (sql_eq (Some (trl_id t)) (Some (snd (snd d)))))
          tbl (duplicates tbl))"

section \<open>Priority Violation\<close>

text \<open>
  The \<^verbatim>\<open>CASE\<close> of the \<^verbatim>\<open>ORDER BY\<close>: the first \<^verbatim>\<open>WHEN\<close> whose condition is TRUE decides.
\<close>

definition priority_case :: "'a co_trl_scheme \<Rightarrow> int" where
  "priority_case r =
     (if holds (sql_eq (manual_review_quality_id r) (Some 1)) then 1
      else if holds (sql_eq (manual_review_quality_id r) (Some 2)) then 2
      else if holds (sql_eq (source r) (Some ''Cloud A'')) then 3
      else if holds (sql_eq (source r) (Some ''Perplexity (Sonar)'')) then 4
      else 5)"

text \<open>
  \<^verbatim>\<open>PARTITION BY client_id, reference_year\<close> and
  \<^verbatim>\<open>ORDER BY CASE ... END, acq_date DESC\<close>: the sort key is the pair of the case's value
  and the negated date, ordered lexicographically, so that a later date comes first.
\<close>

definition partition_by :: "'a co_trl_scheme \<Rightarrow> int \<times> int" where
  "partition_by r = (client_id r, reference_year r)"

definition order_by :: "'a co_trl_scheme \<Rightarrow> int \<times> int" where
  "order_by r = (priority_case r, - acq_date r)"

text \<open>
  A row of \<^verbatim>\<open>ranked_trl\<close>: \<^verbatim>\<open>SELECT *, ROW_NUMBER() OVER (...) AS rnk\<close>, the columns of the
  table and one more.
\<close>

record ranked_row = co_trl +
  rnk :: nat

definition with_rnk :: "co_trl \<Rightarrow> nat \<Rightarrow> ranked_row" where
  "with_rnk r n = co_trl.extend r (ranked_row.fields n)"

text \<open>
  \<^verbatim>\<open>ROW_NUMBER()\<close> numbers the rows of a partition 1, 2, ... in the order of the
  \<^verbatim>\<open>ORDER BY\<close>. Rows that agree on the sort key may be numbered either way round: SQL
  leaves the choice to the engine, so the numbering is a relation. \<open>row_number_ok\<close> reads
  the rows of one partition by their number: the numbers are 1 up to the size of the
  partition, and the rows in that order are sorted by the key.
\<close>

definition row_number_ok :: "ranked_row list \<Rightarrow> bool" where
  "row_number_ok numbered =
     (map rnk (sort_key rnk numbered) = [1..<Suc (length numbered)] \<and>
      sorted (map order_by (sort_key rnk numbered)))"

text \<open>
  \<open>ranked_trl tbl ranked\<close>: \<open>ranked\<close> is a result the engine may give for the common
  table expression \<^verbatim>\<open>ranked_trl\<close> on the table: every row of the table once, with a
  number, and every partition is numbered as \<^verbatim>\<open>ROW_NUMBER()\<close> numbers it.
\<close>

definition ranked_trl :: "dbo_co_trl \<Rightarrow> ranked_row list \<Rightarrow> bool" where
  "ranked_trl tbl ranked =
     (mset (map co_trl.truncate ranked) = mset tbl \<and>
      list_all (\<lambda>k. row_number_ok (filter (\<lambda>x. partition_by x = k) ranked))
        (remdups (map partition_by ranked)))"

text \<open>\<^verbatim>\<open>SELECT * FROM ranked_trl WHERE rnk > 1\<close>\<close>

definition priority_violation :: "ranked_row list \<Rightarrow> ranked_row list" where
  "priority_violation ranked = sql_where (\<lambda>x. sql_gt (rnk x) 1) ranked"

text \<open>
  One engine: it sorts every partition with a stable sort, so rows that agree on the
  sort key keep the order they have in the table.
\<close>

definition row_number :: "co_trl list \<Rightarrow> ranked_row list" where
  "row_number part = map2 with_rnk (sort_key order_by part) [1..<Suc (length part)]"

definition ranked_trl_stable :: "dbo_co_trl \<Rightarrow> ranked_row list" where
  "ranked_trl_stable tbl =
     concat (map (\<lambda>k. row_number (filter (\<lambda>r. partition_by r = k) tbl))
       (remdups (map partition_by tbl)))"

section \<open>The catalog and the run of the selected checks\<close>

text \<open>
  Each query of the catalog is a text; \<open>query_text\<close> names the six texts, and \<open>read_sql_on\<close>
  gives each the meaning defined above.
\<close>

datatype query_text =
  Q_invalid_non_extrapolated_null_rationale
  | Q_invalid_backward_extrapolation
  | Q_duplicate_trl_entries
  | Q_priority_violation
  | Q_null_rationale_not_extrapolated
  | Q_extrapolated_rows_with_rationale

record check =
  description :: string
  query :: query_text

text \<open>
  The dictionary \<^verbatim>\<open>checks\<close>, in the order it is written. The fifth name holds the sign
  "not equal", the three bytes E2 89 A0 in UTF-8.
\<close>

definition checks :: "(string \<times> check) list" where
  "checks =
     [(''Invalid Non-Extrapolated Null Rationale'',
         \<lparr>description = ''Rows with NULL rationale but not marked as extrapolated.'',
          query = Q_invalid_non_extrapolated_null_rationale\<rparr>),
      (''Invalid Backward Extrapolation'',
         \<lparr>description = ''First-year extrapolated entries not using TRL ID 9.'',
          query = Q_invalid_backward_extrapolation\<rparr>),
      (''Duplicate TRL Entries'',
         \<lparr>description = ''Duplicate rows for the same client_id, reference_year, and trl_id.'',
          query = Q_duplicate_trl_entries\<rparr>),
      (''Priority Violation'',
         \<lparr>description = ''Lower-priority TRL entries for same client/year.'',
          query = Q_priority_violation\<rparr>),
      (''Null Rationale not Extrapolated ('' @ [CHR 0xE2, CHR 0x89, CHR 0xA0] @ '' 2025)'',
         \<lparr>description = ''NULL rationales without extrapolation flag (except 2025).'',
          query = Q_null_rationale_not_extrapolated\<rparr>),
      (''Extrapolated Rows with Rationale'',
         \<lparr>description = ''Extrapolated rows that unexpectedly have rationale.'',
          query = Q_extrapolated_rows_with_rationale\<rparr>)]"

datatype dataframe = Rows "co_trl list" | Ranked_rows "ranked_row list"

fun len :: "dataframe \<Rightarrow> nat" where
  "len (Rows rs) = length rs"
| "len (Ranked_rows rs) = length rs"

text \<open>
  \<^verbatim>\<open>checks[name]\<close> raises \<^verbatim>\<open>KeyError\<close> for a name that is not a key of the dictionary (the
  spec calls it UnknownRuleError); \<^verbatim>\<open>pd.read_sql\<close> raises when the data source fails
  (the spec's DataSourceError).
\<close>

datatype py_error = KeyError string | DataSourceError

definition read_sql_on :: "dbo_co_trl \<Rightarrow> query_text \<Rightarrow> py_error + dataframe" where
  "read_sql_on tbl q =
     (case q of
        Q_invalid_non_extrapolated_null_rationale \<Rightarrow> Inr (Rows (invalid_non_extrapolated_null_rationale tbl))
      | Q_invalid_backward_extrapolation \<Rightarrow> Inr (Rows (invalid_backward_extrapolation tbl))
      | Q_duplicate_trl_entries \<Rightarrow> Inr (Rows (duplicate_trl_entries tbl))
      | Q_priority_violation \<Rightarrow> Inr (Ranked_rows (priority_violation (ranked_trl_stable tbl)))
      | Q_null_rationale_not_extrapolated \<Rightarrow> Inr (Rows (null_rationale_not_extrapolated tbl))
      | Q_extrapolated_rows_with_rationale \<Rightarrow> Inr (Rows (extrapolated_rows_with_rationale tbl)))"

text \<open>
  What a run does: the queries it submits to the data source, in order, and what it
  shows (the fixed label texts of the page are left out).
\<close>

datatype ui_event =
  Warning
  | Subheader string
  | Markdown string
  | Info nat
  | Show_dataframe dataframe
  | Download_button string dataframe

record run_state =
  submitted :: "query_text list"
  shown :: "ui_event list"

definition file_name :: "string \<Rightarrow> string" where
  "file_name name = map (\<lambda>c. if c = CHR '' '' then CHR ''_'' else c) name @ ''.csv''"

text \<open>
  The loop \<^verbatim>\<open>for name in selected_checks\<close>. An exception ends the run; the state it
  leaves is returned with it.
\<close>

fun run_checks :: "(query_text \<Rightarrow> py_error + dataframe) \<Rightarrow> string list \<Rightarrow> run_state
    \<Rightarrow> run_state \<times> py_error option" where
  "run_checks read_sql [] s = (s, None)"
| "run_checks read_sql (name # names) s =
     (let s1 = s\<lparr>shown := shown s @ [Subheader name]\<rparr> in
      case map_of checks name of
        None \<Rightarrow> (s1, Some (KeyError name))
      | Some chk \<Rightarrow>
          (let s2 = s1\<lparr>shown := shown s1 @ [Markdown (''**Logic:** '' @ description chk)]\<rparr>;
               s3 = s2\<lparr>submitted := submitted s2 @ [query chk]\<rparr>
           in case read_sql (query chk) of
                Inl e \<Rightarrow> (s3, Some e)
              | Inr df \<Rightarrow>
                  run_checks read_sql names
                    (s3\<lparr>shown := shown s3 @ [Info (len df), Show_dataframe df] @
                        (if len df \<noteq> 0 then [Download_button (file_name name) df] else [])\<rparr>)))"

definition run_selected :: "(query_text \<Rightarrow> py_error + dataframe) \<Rightarrow> string list
    \<Rightarrow> run_state \<times> py_error option" where
  "run_selected read_sql selected_checks =
     (if selected_checks = [] then (\<lparr>submitted = [], shown = [Warning]\<rparr>, None)
      else run_checks read_sql selected_checks \<lparr>submitted = [], shown = []\<rparr>)"

section \<open>Concrete rows\<close>

definition row :: "int \<Rightarrow> int \<Rightarrow> int \<Rightarrow> bool option \<Rightarrow> string option \<Rightarrow> string option
    \<Rightarrow> int option \<Rightarrow> int \<Rightarrow> co_trl" where
  "row c y t e ra s m a =
     \<lparr>client_id = c, reference_year = y, trl_id = t, is_extrapolated = e, rationale = ra,
      source = s, manual_review_quality_id = m, acq_date = a\<rparr>"

text \<open>
  Rows of client 1 in 2022: one reviewed with quality 1, two from the source Cloud A
  with different dates, one from Cloud A that is reviewed with quality 1 as well, and a
  second reviewed row with a later date. Rows of other groups, each reviewed with quality
  1 and later than \<open>reviewed_row\<close>: one of client 2 in 2022 and one of client 1 in 2023.
  Two rows of one group with the same tier and date.
\<close>

abbreviation "reviewed_row \<equiv> row 1 2022 5 None None None (Some 1) 10"
abbreviation "cloud_row \<equiv> row 1 2022 6 None None (Some ''Cloud A'') None 20"
abbreviation "late_cloud_row \<equiv> row 1 2022 7 None None (Some ''Cloud A'') None 25"
abbreviation "reviewed_cloud_row \<equiv> row 1 2022 6 None None (Some ''Cloud A'') (Some 1) 20"
abbreviation "later_reviewed_row \<equiv> row 1 2022 7 None None None (Some 1) 40"
abbreviation "other_client_row \<equiv> row 2 2022 5 None None None (Some 1) 30"
abbreviation "next_year_row \<equiv> row 1 2023 5 None None None (Some 1) 40"
abbreviation "lone_row \<equiv> row 2 2022 5 None None None None 30"
abbreviation "tie_row_1 \<equiv> row 1 2022 5 None None None None 10"
abbreviation "tie_row_2 \<equiv> row 1 2022 6 None None None None 10"

text \<open>
  Two tables: in \<open>pair_table\<close> the group of client 1 in 2022 is \<open>cloud_row\<close> and
  \<open>reviewed_row\<close>, in \<open>tie_break_table\<close> it has \<open>late_cloud_row\<close> too. Both hold the two
  rows of the other groups.
\<close>

abbreviation "pair_table \<equiv> [cloud_row, reviewed_row, other_client_row, next_year_row]"
abbreviation "tie_break_table \<equiv>
  [cloud_row, late_cloud_row, reviewed_row, other_client_row, next_year_row]"

section \<open>What the WHERE clauses select\<close>

lemma invalid_non_extrapolated_null_rationale_eq:
  "invalid_non_extrapolated_null_rationale tbl =
     filter (\<lambda>r. is_extrapolated r = Some False \<and> rationale r = None) tbl"
  unfolding invalid_non_extrapolated_null_rationale_def sql_where_def
  by (rule filter_cong)
     (auto simp: holds_def sql_and_def sql_eq_def is_null_def split: option.splits)

lemma null_rationale_not_extrapolated_eq:
  "null_rationale_not_extrapolated tbl =
     filter (\<lambda>r. rationale r = None \<and> is_extrapolated r \<noteq> Some True \<and> reference_year r \<noteq> 2025) tbl"
  unfolding null_rationale_not_extrapolated_def sql_where_def
  by (rule filter_cong)
     (auto simp: holds_def sql_and_def sql_or_def sql_neq_def is_null_def split: option.splits)

lemma extrapolated_rows_with_rationale_eq:
  "extrapolated_rows_with_rationale tbl =
     filter (\<lambda>r. is_extrapolated r = Some True \<and> rationale r \<noteq> None) tbl"
  unfolding extrapolated_rows_with_rationale_def sql_where_def
  by (rule filter_cong)
     (auto simp: holds_def sql_and_def sql_eq_def is_not_null_def split: option.splits)

section \<open>The rationale rules\<close>

text \<open>
  C7. A row is in the result of "Extrapolated Rows with Rationale" exactly when it is a
  row of the table whose \<open>is_extrapolated\<close> is true and whose \<open>rationale\<close> is not NULL.
\<close>

theorem extrapolated_rows_with_rationale_iff:
  "r \<in> set (extrapolated_rows_with_rationale tbl) \<longleftrightarrow>
     r \<in> set tbl \<and> is_extrapolated r = Some True \<and> rationale r \<noteq> None"
  by (auto simp: extrapolated_rows_with_rationale_eq)

theorem extrapolated_rows_with_rationale_witness:
  "row 1 2022 5 (Some True) (Some ''measured'') None None 7
     \<in> set (extrapolated_rows_with_rationale
         [row 1 2021 4 (Some True) None None None 3,
          row 1 2022 5 (Some True) (Some ''measured'') None None 7,
          row 1 2023 6 (Some False) (Some ''measured'') None None 9])
   \<and> row 1 2021 4 (Some True) None None None 3
     \<notin> set (extrapolated_rows_with_rationale
         [row 1 2021 4 (Some True) None None None 3,
          row 1 2022 5 (Some True) (Some ''measured'') None None 7,
          row 1 2023 6 (Some False) (Some ''measured'') None None 9])"
  using extrapolated_rows_with_rationale_iff
    [of "row 1 2022 5 (Some True) (Some ''measured'') None None 7"
        "[row 1 2021 4 (Some True) None None None 3,
          row 1 2022 5 (Some True) (Some ''measured'') None None 7,
          row 1 2023 6 (Some False) (Some ''measured'') None None 9]"]
    extrapolated_rows_with_rationale_iff
    [of "row 1 2021 4 (Some True) None None None 3"
        "[row 1 2021 4 (Some True) None None None 3,
          row 1 2022 5 (Some True) (Some ''measured'') None None 7,
          row 1 2023 6 (Some False) (Some ''measured'') None None 9]"]
  by (simp add: row_def)

text \<open>
  C1, as the code has it. A row of the table with \<open>is_extrapolated\<close> false and a NULL
  \<open>rationale\<close> is always in the result of "Invalid Non-Extrapolated Null Rationale",
  whose query does not look at the year, and it is in the result of "Null Rationale not
  Extrapolated" exactly when its \<open>reference_year\<close> is not 2025. So it is in both
  results exactly when its year is not 2025, and with the year 2025 it is in the first
  result only.
\<close>

theorem non_extrapolated_null_rationale_rules:
  assumes "r \<in> set tbl" and "is_extrapolated r = Some False" and "rationale r = None"
  shows "r \<in> set (invalid_non_extrapolated_null_rationale tbl) \<and>
         (r \<in> set (null_rationale_not_extrapolated tbl) \<longleftrightarrow> reference_year r \<noteq> 2025) \<and>
         (r \<in> set (invalid_non_extrapolated_null_rationale tbl) \<and>
          r \<in> set (null_rationale_not_extrapolated tbl) \<longleftrightarrow> reference_year r \<noteq> 2025)"
  using assms
  by (auto simp: invalid_non_extrapolated_null_rationale_eq null_rationale_not_extrapolated_eq)

theorem non_extrapolated_null_rationale_rules_witness:
  "row 1 2024 5 (Some False) None None None 7
     \<in> set (invalid_non_extrapolated_null_rationale
         [row 1 2024 5 (Some False) None None None 7, row 1 2025 5 (Some False) None None None 8])
   \<and> row 1 2024 5 (Some False) None None None 7
     \<in> set (null_rationale_not_extrapolated
         [row 1 2024 5 (Some False) None None None 7, row 1 2025 5 (Some False) None None None 8])
   \<and> row 1 2025 5 (Some False) None None None 8
     \<notin> set (null_rationale_not_extrapolated
         [row 1 2024 5 (Some False) None None None 7, row 1 2025 5 (Some False) None None None 8])"
proof -
  let ?a = "row 1 2024 5 (Some False) None None None 7"
  let ?b = "row 1 2025 5 (Some False) None None None 8"
  have a: "?a \<in> set [?a, ?b]" "is_extrapolated ?a = Some False" "rationale ?a = None"
    by (simp_all add: row_def)
  have b: "?b \<in> set [?a, ?b]" "is_extrapolated ?b = Some False" "rationale ?b = None"
    by (simp_all add: row_def)
  show ?thesis
    using non_extrapolated_null_rationale_rules[OF a]
      non_extrapolated_null_rationale_rules[OF b]
    by (simp add: row_def)
qed

text \<open>
  The claim C1 as it is written fails: a row with \<open>is_extrapolated\<close> false, a NULL
  \<open>rationale\<close> and the year 2025 is in the result of "Invalid Non-Extrapolated Null
  Rationale".
\<close>

theorem exempt_year_row_in_invalid_non_extrapolated:
  "is_extrapolated (row 1 2025 5 (Some False) None None None 8) = Some False
   \<and> rationale (row 1 2025 5 (Some False) None None None 8) = None
   \<and> reference_year (row 1 2025 5 (Some False) None None None 8) = 2025
   \<and> row 1 2025 5 (Some False) None None None 8
       \<in> set (invalid_non_extrapolated_null_rationale [row 1 2025 5 (Some False) None None None 8])"
  by (simp add: row_def invalid_non_extrapolated_null_rationale_def sql_where_def holds_def
      sql_and_def sql_eq_def is_null_def)

text \<open>
  C9. The two rationale rules treat a NULL flag differently: a row of the table whose
  \<open>is_extrapolated\<close> is NULL, whose \<open>rationale\<close> is NULL and whose year is not 2025 is
  in the result of "Null Rationale not Extrapolated" (the comparison with 1 is UNKNOWN,
  the test for NULL is TRUE) and is not in the result of "Invalid Non-Extrapolated Null
  Rationale" (the comparison with 0 is UNKNOWN).
\<close>

theorem null_flag_asymmetry:
  assumes "r \<in> set tbl" and "is_extrapolated r = None" and "rationale r = None"
    and "reference_year r \<noteq> 2025"
  shows "r \<in> set (null_rationale_not_extrapolated tbl) \<and>
         r \<notin> set (invalid_non_extrapolated_null_rationale tbl)"
  using assms
  by (simp add: null_rationale_not_extrapolated_def invalid_non_extrapolated_null_rationale_def
      sql_where_def holds_def sql_and_def sql_or_def sql_eq_def sql_neq_def is_null_def)

theorem null_flag_asymmetry_witness:
  "row 3 2022 4 None None None None 1 \<in> set (null_rationale_not_extrapolated [row 3 2022 4 None None None None 1])
   \<and> row 3 2022 4 None None None None 1
       \<notin> set (invalid_non_extrapolated_null_rationale [row 3 2022 4 None None None None 1])"
proof -
  let ?r = "row 3 2022 4 None None None None 1"
  have h: "?r \<in> set [?r]" "is_extrapolated ?r = None" "rationale ?r = None"
    "reference_year ?r \<noteq> 2025"
    by (simp_all add: row_def)
  show ?thesis
    using null_flag_asymmetry[OF h] by simp
qed

section \<open>The joins\<close>

lemma filter_eq_distinct:
  "distinct ks \<Longrightarrow> filter (\<lambda>k. k = a) ks = (if a \<in> set ks then [a] else [])"
  by (induction ks) auto

text \<open>A join in which every left row meets at most one right row.\<close>

lemma sql_join_unique:
  assumes "\<And>t. t \<in> set ts \<Longrightarrow> filter (\<lambda>f. holds (on t f)) fs = (if C t then [h t] else [])"
  shows "sql_join on ts fs = map (\<lambda>t. (t, h t)) (filter C ts)"
  using assms by (induction ts) (simp_all add: sql_join_def)

lemma first_year_matches:
  assumes "t \<in> set tbl"
  shows "filter (\<lambda>f. holds (sql_and (sql_eq (Some (client_id t)) (Some (fst f)))
                       (sql_eq (Some (reference_year t)) (Some (snd f))))) (first_year tbl)
         = (if reference_year t = min_year tbl (client_id t)
            then [(client_id t, min_year tbl (client_id t))] else [])"
proof -
  have on: "holds (sql_and (sql_eq (Some (client_id t)) (Some (fst f)))
                       (sql_eq (Some (reference_year t)) (Some (snd f))))
            \<longleftrightarrow> client_id t = fst f \<and> reference_year t = snd f" for f :: "int \<times> int"
    by (auto simp: holds_def sql_and_def sql_eq_def)
  have "filter (\<lambda>f. client_id t = fst f \<and> reference_year t = snd f) (first_year tbl)
      = map (\<lambda>c. (c, min_year tbl c))
          (filter (\<lambda>c. c = client_id t \<and> reference_year t = min_year tbl (client_id t))
             (remdups (map client_id tbl)))"
    unfolding first_year_def filter_map
    by (rule arg_cong[where f="map _"], rule filter_cong) (auto simp: o_def)
  also have "\<dots> = (if reference_year t = min_year tbl (client_id t)
            then [(client_id t, min_year tbl (client_id t))] else [])"
    using assms by (simp add: filter_eq_distinct)
  finally show ?thesis by (simp add: on)
qed

lemma invalid_backward_extrapolation_eq:
  "invalid_backward_extrapolation tbl =
     filter (\<lambda>r. reference_year r = min_year tbl (client_id r) \<and>
                 is_extrapolated r = Some True \<and> trl_id r \<noteq> 9) tbl"
proof -
  have w: "holds (sql_and (sql_eq (is_extrapolated t) (Some True)) (sql_neq (Some (trl_id t)) (Some 9)))
      \<longleftrightarrow> is_extrapolated t = Some True \<and> trl_id t \<noteq> 9" for t :: co_trl
    by (auto simp: holds_def sql_and_def sql_eq_def sql_neq_def split: option.splits)
  show ?thesis
    unfolding invalid_backward_extrapolation_def
    by (subst sql_join_unique[OF first_year_matches])
       (auto simp: sql_where_def filter_map o_def w intro!: filter_cong)
qed

lemma min_year_Min:
  assumes "r \<in> set tbl"
  shows "min_year tbl (client_id r) =
    Min (reference_year ` set (filter (\<lambda>x. client_id x = client_id r) tbl))"
proof -
  have "filter (\<lambda>x. client_id x = client_id r) tbl \<noteq> []"
    using assms by (auto simp: filter_empty_conv)
  then show ?thesis
    unfolding min_year_def by (subst min_list_Min) (simp_all del: set_filter)
qed

text \<open>
  C6. A row is in the result of "Invalid Backward Extrapolation" exactly when it is a row
  of the table whose \<open>reference_year\<close> is the least year among the rows the table has for
  its client, whose \<open>is_extrapolated\<close> is true and whose \<open>trl_id\<close> is not 9. So a row at
  the least year with \<open>trl_id\<close> 9 is not in the result, and no row at a later year is.
\<close>

theorem invalid_backward_extrapolation_iff:
  "r \<in> set (invalid_backward_extrapolation tbl) \<longleftrightarrow>
     r \<in> set tbl \<and>
     reference_year r = Min (reference_year ` set (filter (\<lambda>x. client_id x = client_id r) tbl)) \<and>
     is_extrapolated r = Some True \<and> trl_id r \<noteq> 9"
proof (cases "r \<in> set tbl")
  case True
  show ?thesis
    unfolding invalid_backward_extrapolation_eq min_year_Min[OF True, symmetric]
    using True by simp
next
  case False
  then show ?thesis
    by (simp add: invalid_backward_extrapolation_eq)
qed

text \<open>
  The spec's example: a client with an extrapolated row at 2020 with \<open>trl_id\<close> 5 and a
  row at 2021; then a table where the row at 2020 has \<open>trl_id\<close> 9; and a later
  extrapolated row, which is never returned.
\<close>

theorem invalid_backward_extrapolation_witness:
  "row 7 2020 5 (Some True) None None None 1
     \<in> set (invalid_backward_extrapolation
         [row 7 2020 5 (Some True) None None None 1, row 7 2021 4 (Some True) None None None 2])
   \<and> row 7 2021 4 (Some True) None None None 2
     \<notin> set (invalid_backward_extrapolation
         [row 7 2020 5 (Some True) None None None 1, row 7 2021 4 (Some True) None None None 2])
   \<and> row 7 2020 9 (Some True) None None None 1
     \<notin> set (invalid_backward_extrapolation
         [row 7 2020 9 (Some True) None None None 1, row 7 2021 4 (Some True) None None None 2])"
  using invalid_backward_extrapolation_iff
      [of "row 7 2020 5 (Some True) None None None 1"
          "[row 7 2020 5 (Some True) None None None 1, row 7 2021 4 (Some True) None None None 2]"]
    invalid_backward_extrapolation_iff
      [of "row 7 2021 4 (Some True) None None None 2"
          "[row 7 2020 5 (Some True) None None None 1, row 7 2021 4 (Some True) None None None 2]"]
    invalid_backward_extrapolation_iff
      [of "row 7 2020 9 (Some True) None None None 1"
          "[row 7 2020 9 (Some True) None None None 1, row 7 2021 4 (Some True) None None None 2]"]
  by (simp add: row_def)

lemma duplicates_matches:
  "filter (\<lambda>d. holds (sql_and
                    (sql_and (sql_eq (Some (client_id t)) (Some (fst d)))
                       (sql_eq (Some (reference_year t)) (Some (fst (snd d)))))
                    (sql_eq (Some (trl_id t)) (Some (snd (snd d)))))) (duplicates tbl)
   = (if triple t \<in> set (duplicates tbl) then [triple t] else [])"
proof -
  have on: "holds (sql_and
                    (sql_and (sql_eq (Some (client_id t)) (Some (fst d)))
                       (sql_eq (Some (reference_year t)) (Some (fst (snd d)))))
                    (sql_eq (Some (trl_id t)) (Some (snd (snd d)))))
            \<longleftrightarrow> d = triple t" for d :: "int \<times> int \<times> int"
    by (cases d) (auto simp: holds_def sql_and_def sql_eq_def triple_def)
  have "distinct (duplicates tbl)"
    by (simp add: duplicates_def)
  then show ?thesis
    by (simp add: on filter_eq_distinct)
qed

lemma in_duplicates:
  "k \<in> set (duplicates tbl) \<longleftrightarrow> 1 < length (filter (\<lambda>r. triple r = k) tbl)"
proof -
  have "1 < length (filter (\<lambda>r. triple r = k) tbl) \<Longrightarrow> k \<in> triple ` set tbl"
    by (cases "filter (\<lambda>r. triple r = k) tbl") (auto simp: filter_eq_Cons_iff)
  then show ?thesis
    by (auto simp: duplicates_def holds_def sql_gt_def)
qed

lemma duplicate_trl_entries_eq:
  "duplicate_trl_entries tbl =
     filter (\<lambda>r. 1 < length (filter (\<lambda>x. triple x = triple r) tbl)) tbl"
  unfolding duplicate_trl_entries_def
  by (subst sql_join_unique[OF duplicates_matches]) (simp add: o_def in_duplicates)

text \<open>
  C5. The result of "Duplicate TRL Entries" is the table without the rows whose triple
  (client_id, reference_year, trl_id) no other row has: a row is in the result exactly
  when it is a row of the table and the table has at least two rows with its triple
  (itself and another). Every row of such a group is returned, as often as the table
  has it, and a row with a triple of its own never is.
\<close>

theorem duplicate_trl_entries_iff:
  "duplicate_trl_entries tbl =
     filter (\<lambda>r. 2 \<le> length (filter (\<lambda>x. triple x = triple r) tbl)) tbl
   \<and> (r \<in> set (duplicate_trl_entries tbl) \<longleftrightarrow>
        r \<in> set tbl \<and> 2 \<le> length (filter (\<lambda>x. triple x = triple r) tbl))"
proof -
  have "(1 < n) = (2 \<le> n)" for n :: nat
    by arith
  then have "duplicate_trl_entries tbl =
     filter (\<lambda>r. 2 \<le> length (filter (\<lambda>x. triple x = triple r) tbl)) tbl"
    by (simp add: duplicate_trl_entries_eq)
  then show ?thesis
    by simp
qed

text \<open>
  The spec's example: three rows with one triple are all returned, the row with a
  triple of its own is not.
\<close>

theorem duplicate_trl_entries_witness:
  "duplicate_trl_entries
     [row 1 2022 5 None None None None 1, row 1 2022 5 None None (Some ''Cloud A'') None 2,
      row 2 2022 5 None None None None 3, row 1 2022 5 (Some True) None None None 4]
   = [row 1 2022 5 None None None None 1, row 1 2022 5 None None (Some ''Cloud A'') None 2,
      row 1 2022 5 (Some True) None None None 4]
   \<and> row 2 2022 5 None None None None 3
     \<notin> set (duplicate_trl_entries
         [row 1 2022 5 None None None None 1, row 1 2022 5 None None (Some ''Cloud A'') None 2,
          row 2 2022 5 None None None None 3, row 1 2022 5 (Some True) None None None 4])"
  using duplicate_trl_entries_iff
      [of "[row 1 2022 5 None None None None 1, row 1 2022 5 None None (Some ''Cloud A'') None 2,
            row 2 2022 5 None None None None 3, row 1 2022 5 (Some True) None None None 4]"
          "row 2 2022 5 None None None None 3"]
  by (simp add: row_def triple_def)

section \<open>Ranked rows\<close>

lemma truncate_with_rnk [simp]: "co_trl.truncate (with_rnk r n) = r"
  by (simp add: with_rnk_def co_trl.defs ranked_row.defs)

lemma rnk_with_rnk [simp]: "rnk (with_rnk r n) = n"
  by (simp add: with_rnk_def co_trl.defs ranked_row.defs)

lemma ranked_row_eq_iff:
  "x = y \<longleftrightarrow> co_trl.truncate x = co_trl.truncate y \<and> rnk x = rnk y" for x y :: ranked_row
  by (cases x; cases y) (auto simp: co_trl.defs)

lemma priority_case_truncate [simp]: "priority_case (co_trl.truncate x) = priority_case x"
  unfolding priority_case_def by (simp add: co_trl.defs)

lemma partition_by_truncate [simp]: "partition_by (co_trl.truncate x) = partition_by x"
  unfolding partition_by_def by (simp add: co_trl.defs)

lemma acq_date_truncate [simp]: "acq_date (co_trl.truncate x) = acq_date x"
  by (simp add: co_trl.defs)

lemma order_by_truncate [simp]: "order_by (co_trl.truncate x) = order_by x"
  by (simp add: order_by_def)

lemma priority_violation_eq: "priority_violation ranked = filter (\<lambda>x. 1 < rnk x) ranked"
  by (simp add: priority_violation_def sql_where_def holds_def sql_gt_def)

text \<open>The rows of one partition, in the table and in the ranked table.\<close>

lemma ranked_partition:
  assumes "mset (map co_trl.truncate ranked) = mset tbl"
  shows "mset (map co_trl.truncate (filter (\<lambda>x. partition_by x = k) ranked)) =
         mset (filter (\<lambda>r. partition_by r = k) tbl)"
proof -
  have "map co_trl.truncate (filter (\<lambda>x. partition_by x = k) ranked) =
        filter (\<lambda>r. partition_by r = k) (map co_trl.truncate ranked)"
    by (simp add: filter_map o_def)
  then show ?thesis
    using assms by (simp only: mset_filter)
qed

text \<open>A numbered partition, read by number.\<close>

lemma row_number_ok_nth:
  assumes ok: "row_number_ok g" and x: "x \<in> set g"
  shows "1 \<le> rnk x \<and> rnk x \<le> length g \<and> sort_key rnk g ! (rnk x - 1) = x"
proof -
  let ?bs = "sort_key rnk g"
  have len: "length ?bs = length g" by simp
  from x have "x \<in> set ?bs" by simp
  then obtain i where i: "i < length ?bs" "?bs ! i = x"
    by (metis in_set_conv_nth)
  have "map rnk ?bs ! i = [1..<Suc (length g)] ! i"
    using ok by (simp add: row_number_ok_def)
  then have "rnk x = 1 + i"
    using i by (simp del: upt_Suc)
  then show ?thesis
    using i by simp
qed

lemma row_number_ok_mono:
  assumes ok: "row_number_ok g" and x: "x \<in> set g" and y: "y \<in> set g"
    and lt: "order_by x < order_by y"
  shows "rnk x < rnk y"
proof (rule ccontr)
  assume "\<not> rnk x < rnk y"
  then have le: "rnk y - 1 \<le> rnk x - 1" by simp
  let ?bs = "map order_by (sort_key rnk g)"
  have nx: "1 \<le> rnk x" "rnk x \<le> length g" "sort_key rnk g ! (rnk x - 1) = x"
    using row_number_ok_nth[OF ok x] by simp_all
  have ny: "sort_key rnk g ! (rnk y - 1) = y"
    using row_number_ok_nth[OF ok y] by simp
  have "sorted ?bs"
    using ok by (simp add: row_number_ok_def)
  moreover note le
  moreover have "rnk x - 1 < length ?bs"
    using nx by simp
  ultimately have "?bs ! (rnk y - 1) \<le> ?bs ! (rnk x - 1)"
    by (rule sorted_nth_mono)
  then have "order_by y \<le> order_by x"
    using nx ny le by simp
  with lt show False by simp
qed

lemma row_number_ok_first:
  assumes ok: "row_number_ok g" and ne: "g \<noteq> []"
  shows "\<exists>c. c \<in> set g \<and> rnk c = 1 \<and> mset g = add_mset c (mset (filter (\<lambda>x. 1 < rnk x) g))"
proof -
  let ?bs = "sort_key rnk g"
  from ne have "?bs \<noteq> []"
    by (metis length_sort list.size(3) length_0_conv)
  then obtain b bs' where bs: "?bs = b # bs'"
    by (cases ?bs) auto
  have "map rnk (b # bs') = [1..<Suc (length g)]"
    using ok bs by (simp add: row_number_ok_def)
  moreover have "[1..<Suc (length g)] = 1 # [Suc 1..<Suc (length g)]"
    using ne by (intro upt_conv_Cons) simp
  ultimately have b: "rnk b = 1" and rest: "map rnk bs' = [Suc 1..<Suc (length g)]"
    by simp_all
  have "\<forall>x\<in>set bs'. 1 < rnk x"
  proof
    fix x assume "x \<in> set bs'"
    then have "rnk x \<in> set (map rnk bs')" by simp
    then show "1 < rnk x" unfolding rest by (simp del: upt_Suc)
  qed
  then have "filter (\<lambda>x. 1 < rnk x) ?bs = bs'"
    using b bs by simp
  then have "mset (filter (\<lambda>x. 1 < rnk x) g) = mset bs'"
    by (metis mset_filter mset_sort)
  moreover have "mset g = add_mset b (mset bs')"
    by (metis bs mset.simps(2) mset_sort)
  moreover have "b \<in> set g"
    by (metis bs list.set_intros(1) set_sort)
  ultimately show ?thesis
    using b by auto
qed

lemma ranked_trl_group:
  assumes "ranked_trl tbl ranked" and "x \<in> set ranked"
  shows "row_number_ok (filter (\<lambda>y. partition_by y = partition_by x) ranked)"
  using assms by (auto simp: ranked_trl_def list_all_iff)

lemma ranked_trl_set:
  assumes "ranked_trl tbl ranked"
  shows "co_trl.truncate ` set ranked = set tbl"
proof -
  have "set (map co_trl.truncate ranked) = set tbl"
    using assms unfolding ranked_trl_def by (metis set_mset_mset)
  then show ?thesis by simp
qed

lemma ranked_trl_group_of_row:
  assumes rk: "ranked_trl tbl ranked" and r: "r \<in> set tbl"
  shows "filter (\<lambda>y. partition_by y = partition_by r) ranked \<noteq> [] \<and>
         row_number_ok (filter (\<lambda>y. partition_by y = partition_by r) ranked)"
proof -
  from r have "r \<in> co_trl.truncate ` set ranked"
    using ranked_trl_set[OF rk] by simp
  then obtain x where x: "x \<in> set ranked" "co_trl.truncate x = r"
    by (auto simp: image_iff)
  then have k: "partition_by x = partition_by r"
    by (metis partition_by_truncate)
  have "x \<in> set (filter (\<lambda>y. partition_by y = partition_by r) ranked)"
    using x k by simp
  then have "filter (\<lambda>y. partition_by y = partition_by r) ranked \<noteq> []"
    by (metis empty_iff empty_set)
  then show ?thesis
    using ranked_trl_group[OF rk x(1)] k by simp
qed

lemma violations_of_group:
  "filter (\<lambda>x. partition_by x = k) (priority_violation ranked) =
   filter (\<lambda>x. 1 < rnk x) (filter (\<lambda>x. partition_by x = k) ranked)"
  by (simp add: priority_violation_eq conj_commute)

lemma group_split:
  assumes rk: "ranked_trl tbl ranked" and r: "r \<in> set tbl"
  shows "\<exists>c. c \<in> set ranked \<and> partition_by c = partition_by r \<and> rnk c = 1 \<and>
           mset (filter (\<lambda>x. partition_by x = partition_by r) tbl) =
             add_mset (co_trl.truncate c)
               (mset (map co_trl.truncate
                  (filter (\<lambda>x. partition_by x = partition_by r) (priority_violation ranked))))"
proof -
  let ?g = "filter (\<lambda>y. partition_by y = partition_by r) ranked"
  obtain c where c: "c \<in> set ?g" "rnk c = 1"
      "mset ?g = add_mset c (mset (filter (\<lambda>x. 1 < rnk x) ?g))"
    using row_number_ok_first ranked_trl_group_of_row[OF rk r] by blast
  have "mset (map co_trl.truncate ?g) =
      add_mset (co_trl.truncate c) (mset (map co_trl.truncate (filter (\<lambda>x. 1 < rnk x) ?g)))"
    using arg_cong[OF c(3), of "image_mset co_trl.truncate"] by simp
  moreover have "mset (map co_trl.truncate ?g) = mset (filter (\<lambda>x. partition_by x = partition_by r) tbl)"
    using rk by (intro ranked_partition) (simp add: ranked_trl_def)
  ultimately show ?thesis
    using c(1,2) by (auto simp: violations_of_group)
qed

section \<open>Every table has a ranking\<close>

text \<open>
  The engine that sorts every partition with a stable sort gives a result that
  \<open>ranked_trl\<close> allows, so the theorems about every such result are about something.
\<close>

lemma truncate_map2_with_rnk:
  "length xs = length ns \<Longrightarrow> map co_trl.truncate (map2 with_rnk xs ns) = xs"
  by (induction xs ns rule: list_induct2) simp_all

lemma rnk_map2_with_rnk:
  "length xs = length ns \<Longrightarrow> map rnk (map2 with_rnk xs ns) = ns"
  by (induction xs ns rule: list_induct2) simp_all

lemma truncate_row_number: "map co_trl.truncate (row_number part) = sort_key order_by part"
  unfolding row_number_def by (rule truncate_map2_with_rnk) (simp del: upt_Suc)

lemma rnk_row_number: "map rnk (row_number part) = [1..<Suc (length part)]"
  unfolding row_number_def by (rule rnk_map2_with_rnk) (simp del: upt_Suc)

lemma length_row_number [simp]: "length (row_number part) = length part"
  using arg_cong[OF truncate_row_number, of length part] by simp

lemma row_number_ok_row_number: "row_number_ok (row_number part)"
proof -
  have "sorted (map rnk (row_number part))"
    by (simp add: rnk_row_number del: upt_Suc)
  then have id: "sort_key rnk (row_number part) = row_number part"
    by (rule sort_key_id_if_sorted)
  have "map order_by (row_number part) = map order_by (map co_trl.truncate (row_number part))"
    by (simp add: o_def)
  then have "sorted (map order_by (row_number part))"
    by (simp only: truncate_row_number sorted_sort_key)
  then show ?thesis
    unfolding row_number_ok_def id by (simp add: rnk_row_number del: upt_Suc)
qed

lemma partition_of_row_number:
  assumes "x \<in> set (row_number (filter (\<lambda>r. partition_by r = k) tbl))"
  shows "partition_by x = k"
proof -
  have "co_trl.truncate x \<in> set (map co_trl.truncate (row_number (filter (\<lambda>r. partition_by r = k) tbl)))"
    using assms by simp
  then have "co_trl.truncate x \<in> set (filter (\<lambda>r. partition_by r = k) tbl)"
    by (simp only: truncate_row_number set_sort)
  then show ?thesis by simp
qed

lemma filter_concat_keys:
  assumes "distinct ks" and "\<And>k' x. k' \<in> set ks \<Longrightarrow> x \<in> set (f k') \<Longrightarrow> key x = k'"
  shows "filter (\<lambda>x. key x = k) (concat (map f ks)) = (if k \<in> set ks then f k else [])"
  using assms
proof (induction ks)
  case Nil
  show ?case by simp
next
  case (Cons a ks)
  have a: "filter (\<lambda>x. key x = k) (f a) = (if k = a then f a else [])"
    using Cons.prems(2)[of a] by (auto simp: filter_empty_conv intro!: filter_True)
  have IH: "filter (\<lambda>x. key x = k) (concat (map f ks)) = (if k \<in> set ks then f k else [])"
    using Cons.prems by (intro Cons.IH) auto
  show ?case
    using Cons.prems(1) by (auto simp: a IH)
qed

lemma sum_partitions:
  assumes "distinct ks"
  shows "sum_list (map (\<lambda>k. filter_mset (\<lambda>r. f r = k) M) ks) = filter_mset (\<lambda>r. f r \<in> set ks) M"
  using assms
proof (induction ks)
  case Nil
  show ?case by simp
next
  case (Cons a ks)
  then have "sum_list (map (\<lambda>k. filter_mset (\<lambda>r. f r = k) M) (a # ks)) =
      filter_mset (\<lambda>r. f r = a) M + filter_mset (\<lambda>r. f r \<in> set ks) M"
    by simp
  also have "\<dots> = filter_mset (\<lambda>r. f r \<in> set (a # ks)) M"
    using Cons.prems by (intro multiset_eqI) auto
  finally show ?case .
qed

lemma truncate_ranked_trl_stable: "mset (map co_trl.truncate (ranked_trl_stable tbl)) = mset tbl"
proof -
  let ?ks = "remdups (map partition_by tbl)"
  have "map co_trl.truncate (ranked_trl_stable tbl) =
        concat (map (\<lambda>k. sort_key order_by (filter (\<lambda>r. partition_by r = k) tbl)) ?ks)"
    unfolding ranked_trl_stable_def by (simp add: map_concat o_def truncate_row_number)
  then have "mset (map co_trl.truncate (ranked_trl_stable tbl)) =
        sum_list (map (\<lambda>k. filter_mset (\<lambda>r. partition_by r = k) (mset tbl)) ?ks)"
    by (simp add: mset_concat o_def)
  also have "\<dots> = filter_mset (\<lambda>r. partition_by r \<in> set ?ks) (mset tbl)"
    by (rule sum_partitions) simp
  also have "\<dots> = mset tbl"
    by (intro multiset_eqI) auto
  finally show ?thesis .
qed

lemma ranked_trl_stable_ok: "ranked_trl tbl (ranked_trl_stable tbl)"
proof -
  let ?ks = "remdups (map partition_by tbl)"
  have grp: "filter (\<lambda>x. partition_by x = k) (ranked_trl_stable tbl) =
      (if k \<in> set ?ks then row_number (filter (\<lambda>r. partition_by r = k) tbl) else [])" for k
    unfolding ranked_trl_stable_def
    by (rule filter_concat_keys) (simp_all add: partition_of_row_number)
  have "row_number_ok []"
    by (simp add: row_number_ok_def)
  then have "row_number_ok (filter (\<lambda>x. partition_by x = k) (ranked_trl_stable tbl))" for k
    unfolding grp by (simp add: row_number_ok_row_number)
  then show ?thesis
    unfolding ranked_trl_def using truncate_ranked_trl_stable[of tbl] by (simp add: list_all_iff)
qed

lemmas eval_defs = ranked_trl_stable_def row_number_def partition_by_def order_by_def
  priority_case_def holds_def sql_eq_def sql_gt_def sql_where_def priority_violation_def row_def
  upt_rec eval_nat_numeral

section \<open>The canonical row of a group\<close>

lemma canonical_row_of_partition:
  assumes rk: "ranked_trl tbl ranked" and r: "r \<in> set tbl"
  shows "(\<exists>c. c \<in> set ranked \<and> partition_by c = partition_by r \<and> rnk c = 1 \<and>
              c \<notin> set (priority_violation ranked) \<and>
              mset (filter (\<lambda>x. partition_by x = partition_by r) tbl) =
                add_mset (co_trl.truncate c)
                  (mset (map co_trl.truncate
                     (filter (\<lambda>x. partition_by x = partition_by r) (priority_violation ranked)))))
       \<and> length (filter (\<lambda>x. partition_by x = partition_by r) (priority_violation ranked)) + 1 =
           length (filter (\<lambda>x. partition_by x = partition_by r) tbl)
       \<and> (filter (\<lambda>x. partition_by x = partition_by r) tbl = [r] \<longrightarrow>
            r \<notin> co_trl.truncate ` set (priority_violation ranked))"
proof -
  let ?G = "filter (\<lambda>x. partition_by x = partition_by r) tbl"
  let ?V = "filter (\<lambda>x. partition_by x = partition_by r) (priority_violation ranked)"
  obtain c where c: "c \<in> set ranked" "partition_by c = partition_by r" "rnk c = 1"
      "mset ?G = add_mset (co_trl.truncate c) (mset (map co_trl.truncate ?V))"
    using group_split[OF rk r] by blast
  have notin: "c \<notin> set (priority_violation ranked)"
    using c(3) by (simp add: priority_violation_eq)
  have "length ?G = size (mset ?G)"
    by (simp only: size_mset)
  also have "\<dots> = size (add_mset (co_trl.truncate c) (mset (map co_trl.truncate ?V)))"
    by (simp only: c(4))
  also have "\<dots> = length ?V + 1"
    by (simp only: size_add_mset size_mset length_map Suc_eq_plus1)
  finally have len: "length ?V + 1 = length ?G"
    by simp
  have lone: "r \<notin> co_trl.truncate ` set (priority_violation ranked)" if one: "?G = [r]"
  proof
    assume "r \<in> co_trl.truncate ` set (priority_violation ranked)"
    then obtain y where y: "y \<in> set (priority_violation ranked)" "co_trl.truncate y = r"
      by (auto simp: image_iff)
    then have "partition_by y = partition_by r"
      by (metis partition_by_truncate)
    then have "y \<in> set ?V"
      using y by simp
    moreover have "?V = []"
      using len one by simp
    ultimately show False
      by (simp only: list.set empty_iff)
  qed
  show ?thesis
    using c notin len lone by blast
qed

text \<open>
  C3. Take any result of the ranking and a row \<open>r\<close> of the table. The group of \<open>r\<close>, the
  rows with its (client_id, reference_year), has a row \<open>c\<close> numbered 1, which is not in
  the result of "Priority Violation", and the rows of the group in the table are \<open>c\<close>
  and the rows of the group in "Priority Violation", counted as a bag. So exactly one row
  of the group is left out and all the others are returned: the result has one row fewer
  of the group than the table has. A row that is alone in its group is not returned.
\<close>

theorem one_canonical_row_per_group:
  assumes rk: "ranked_trl tbl ranked" and r: "r \<in> set tbl"
  shows "(\<exists>c. c \<in> set ranked \<and> client_id c = client_id r \<and> reference_year c = reference_year r \<and>
              rnk c = 1 \<and> c \<notin> set (priority_violation ranked) \<and>
              mset (filter (\<lambda>x. client_id x = client_id r \<and> reference_year x = reference_year r) tbl) =
                add_mset (co_trl.truncate c)
                  (mset (map co_trl.truncate
                     (filter (\<lambda>x. client_id x = client_id r \<and> reference_year x = reference_year r)
                        (priority_violation ranked)))))
       \<and> length (filter (\<lambda>x. client_id x = client_id r \<and> reference_year x = reference_year r)
             (priority_violation ranked)) + 1 =
           length (filter (\<lambda>x. client_id x = client_id r \<and> reference_year x = reference_year r) tbl)
       \<and> (filter (\<lambda>x. client_id x = client_id r \<and> reference_year x = reference_year r) tbl = [r] \<longrightarrow>
            r \<notin> co_trl.truncate ` set (priority_violation ranked))"
  using canonical_row_of_partition[OF rk r]
  unfolding partition_by_def prod.inject by blast

text \<open>
  In \<open>pair_table\<close> the group of client 1 in 2022 has two rows and one of them is returned;
  the rows of client 2 and of the year 2023 are alone in their groups and are not
  returned, though each would come before \<open>reviewed_row\<close> in a ranking of the whole table.
\<close>

theorem one_canonical_row_per_group_witness:
  "priority_violation (ranked_trl_stable pair_table) = [with_rnk cloud_row 2]
   \<and> length (filter (\<lambda>x. client_id x = client_id cloud_row \<and> reference_year x = reference_year cloud_row)
         (priority_violation (ranked_trl_stable pair_table))) + 1 =
       length (filter (\<lambda>x. client_id x = client_id cloud_row \<and> reference_year x = reference_year cloud_row)
         pair_table)
   \<and> other_client_row \<notin> co_trl.truncate ` set (priority_violation (ranked_trl_stable pair_table))
   \<and> next_year_row \<notin> co_trl.truncate ` set (priority_violation (ranked_trl_stable pair_table))"
proof -
  have result: "priority_violation (ranked_trl_stable pair_table) = [with_rnk cloud_row 2]"
    by (simp add: eval_defs)
  have rows: "cloud_row \<in> set pair_table" "other_client_row \<in> set pair_table"
    "next_year_row \<in> set pair_table"
    by simp_all
  have alone: "filter (\<lambda>x. client_id x = client_id other_client_row \<and>
                           reference_year x = reference_year other_client_row) pair_table
               = [other_client_row]"
    "filter (\<lambda>x. client_id x = client_id next_year_row \<and>
                  reference_year x = reference_year next_year_row) pair_table
     = [next_year_row]"
    by (simp_all add: row_def)
  show ?thesis
    using result alone
      one_canonical_row_per_group[OF ranked_trl_stable_ok rows(1)]
      one_canonical_row_per_group[OF ranked_trl_stable_ok rows(2)]
      one_canonical_row_per_group[OF ranked_trl_stable_ok rows(3)]
    by simp
qed

section \<open>The order of the ranking\<close>

lemma priority_case_tiers:
  "(priority_case x = 1 \<longleftrightarrow> manual_review_quality_id x = Some 1) \<and>
   (priority_case x = 2 \<longleftrightarrow> manual_review_quality_id x = Some 2) \<and>
   (priority_case x = 3 \<longleftrightarrow>
      manual_review_quality_id x \<noteq> Some 1 \<and> manual_review_quality_id x \<noteq> Some 2 \<and>
      source x = Some ''Cloud A'') \<and>
   (priority_case x = 4 \<longleftrightarrow>
      manual_review_quality_id x \<noteq> Some 1 \<and> manual_review_quality_id x \<noteq> Some 2 \<and>
      source x = Some ''Perplexity (Sonar)'') \<and>
   (priority_case x = 5 \<longleftrightarrow>
      manual_review_quality_id x \<noteq> Some 1 \<and> manual_review_quality_id x \<noteq> Some 2 \<and>
      source x \<noteq> Some ''Cloud A'' \<and> source x \<noteq> Some ''Perplexity (Sonar)'')"
  by (auto simp: priority_case_def holds_def sql_eq_def split: option.splits)

lemma rank_follows_order:
  assumes rk: "ranked_trl tbl ranked" and x: "x \<in> set ranked" and y: "y \<in> set ranked"
    and k: "partition_by x = partition_by y"
    and lt: "priority_case x < priority_case y \<or>
             priority_case x = priority_case y \<and> acq_date y < acq_date x"
  shows "rnk x < rnk y"
proof -
  let ?g = "filter (\<lambda>z. partition_by z = partition_by x) ranked"
  have "row_number_ok ?g"
    by (rule ranked_trl_group[OF rk x])
  moreover have "x \<in> set ?g" "y \<in> set ?g"
    using x y k by simp_all
  moreover have "order_by x < order_by y"
    using lt by (auto simp: order_by_def less_prod_def)
  ultimately show ?thesis
    by (rule row_number_ok_mono)
qed

lemma rnk_positive:
  assumes rk: "ranked_trl tbl ranked" and x: "x \<in> set ranked"
  shows "1 \<le> rnk x"
proof -
  have "x \<in> set (filter (\<lambda>z. partition_by z = partition_by x) ranked)"
    using x by simp
  then show ?thesis
    using row_number_ok_nth[OF ranked_trl_group[OF rk x]] by blast
qed

lemma better_row_makes_violation:
  assumes rk: "ranked_trl tbl ranked" and a: "a \<in> set tbl" and b: "b \<in> set tbl"
    and k: "partition_by a = partition_by b"
    and lt: "priority_case a < priority_case b \<or>
             priority_case a = priority_case b \<and> acq_date b < acq_date a"
  shows "b \<in> co_trl.truncate ` set (priority_violation ranked)"
proof -
  have "a \<in> co_trl.truncate ` set ranked" "b \<in> co_trl.truncate ` set ranked"
    using a b ranked_trl_set[OF rk] by simp_all
  then obtain x y where x: "x \<in> set ranked" "co_trl.truncate x = a"
    and y: "y \<in> set ranked" "co_trl.truncate y = b"
    by (auto simp: image_iff)
  have px: "partition_by x = partition_by a" "priority_case x = priority_case a" "acq_date x = acq_date a"
    using x(2) by (metis partition_by_truncate, metis priority_case_truncate, metis acq_date_truncate)
  have py: "partition_by y = partition_by b" "priority_case y = priority_case b" "acq_date y = acq_date b"
    using y(2) by (metis partition_by_truncate, metis priority_case_truncate, metis acq_date_truncate)
  have "rnk x < rnk y"
    using rk x(1) y(1) by (rule rank_follows_order) (simp_all add: px py k lt)
  then have "1 < rnk y"
    using rnk_positive[OF rk x(1)] by simp
  then have "y \<in> set (priority_violation ranked)"
    using y(1) by (simp add: priority_violation_eq)
  then show ?thesis
    using y(2) by (auto simp: image_iff)
qed

lemma ranking_order_of_partition:
  fixes z :: co_trl
  assumes rk: "ranked_trl tbl ranked"
  shows "((priority_case z = 1 \<longleftrightarrow> manual_review_quality_id z = Some 1) \<and>
          (priority_case z = 2 \<longleftrightarrow> manual_review_quality_id z = Some 2) \<and>
          (priority_case z = 3 \<longleftrightarrow>
             manual_review_quality_id z \<noteq> Some 1 \<and> manual_review_quality_id z \<noteq> Some 2 \<and>
             source z = Some ''Cloud A'') \<and>
          (priority_case z = 4 \<longleftrightarrow>
             manual_review_quality_id z \<noteq> Some 1 \<and> manual_review_quality_id z \<noteq> Some 2 \<and>
             source z = Some ''Perplexity (Sonar)'') \<and>
          (priority_case z = 5 \<longleftrightarrow>
             manual_review_quality_id z \<noteq> Some 1 \<and> manual_review_quality_id z \<noteq> Some 2 \<and>
             source z \<noteq> Some ''Cloud A'' \<and> source z \<noteq> Some ''Perplexity (Sonar)''))
       \<and> (x \<in> set ranked \<and> y \<in> set ranked \<and> partition_by x = partition_by y \<and>
            (priority_case x < priority_case y \<or>
             priority_case x = priority_case y \<and> acq_date y < acq_date x)
          \<longrightarrow> rnk x < rnk y)
       \<and> (x \<in> set (priority_violation ranked) \<longleftrightarrow> x \<in> set ranked \<and> rnk x \<noteq> 1)
       \<and> (a \<in> set tbl \<and> b \<in> set tbl \<and> partition_by a = partition_by b \<and>
            manual_review_quality_id a = Some 1 \<and> source b = Some ''Cloud A'' \<and>
            manual_review_quality_id b \<noteq> Some 1 \<and> manual_review_quality_id b \<noteq> Some 2
          \<longrightarrow> priority_case a = 1 \<and> priority_case b = 3 \<and>
              b \<in> co_trl.truncate ` set (priority_violation ranked) \<and>
              (mset (filter (\<lambda>r. partition_by r = partition_by a) tbl) = {#a, b#}
               \<longrightarrow> a \<notin> co_trl.truncate ` set (priority_violation ranked)))"
proof (rule conjI, rule priority_case_tiers, intro conjI impI)
  assume "x \<in> set ranked \<and> y \<in> set ranked \<and> partition_by x = partition_by y \<and>
            (priority_case x < priority_case y \<or>
             priority_case x = priority_case y \<and> acq_date y < acq_date x)"
  then show "rnk x < rnk y"
    using rank_follows_order[OF rk] by blast
next
  show "x \<in> set (priority_violation ranked) \<longleftrightarrow> x \<in> set ranked \<and> rnk x \<noteq> 1"
    using rnk_positive[OF rk, of x] by (auto simp: priority_violation_eq)
next
  assume h: "a \<in> set tbl \<and> b \<in> set tbl \<and> partition_by a = partition_by b \<and>
            manual_review_quality_id a = Some 1 \<and> source b = Some ''Cloud A'' \<and>
            manual_review_quality_id b \<noteq> Some 1 \<and> manual_review_quality_id b \<noteq> Some 2"
  show pa: "priority_case a = 1" and pb: "priority_case b = 3"
    using h priority_case_tiers[of a] priority_case_tiers[of b] by simp_all
  show bv: "b \<in> co_trl.truncate ` set (priority_violation ranked)"
    using rk h by (intro better_row_makes_violation[of tbl ranked a b]) (simp_all add: pa pb)
  assume two: "mset (filter (\<lambda>r. partition_by r = partition_by a) tbl) = {#a, b#}"
  have "a \<in> set tbl"
    using h by simp
  from group_split[OF rk this]
  obtain c :: ranked_row where c: "mset (filter (\<lambda>r. partition_by r = partition_by a) tbl) =
      add_mset (co_trl.truncate c)
        (mset (map co_trl.truncate
           (filter (\<lambda>x. partition_by x = partition_by a) (priority_violation ranked))))"
    by blast
  let ?V = "map co_trl.truncate (filter (\<lambda>x. partition_by x = partition_by a) (priority_violation ranked))"
  have ab: "a \<noteq> b"
    using pa pb by auto
  have "b \<in> set ?V"
    using bv h by (auto simp: image_iff)
  then have bV: "b \<in># mset ?V" by simp
  have "size (add_mset (co_trl.truncate c) (mset ?V)) = size {#a, b#}"
    by (simp only: c[symmetric] two)
  then have sz: "size (mset ?V) = 1"
    by (simp del: mset_map mset_filter)
  then obtain v where "mset ?V = {#v#}"
    by (metis size_1_singleton_mset)
  with bV have V: "mset ?V = {#b#}"
    by (metis insert_noteq_member empty_not_add_mset multi_member_split add_mset_remove_trivial_eq)
  show "a \<notin> co_trl.truncate ` set (priority_violation ranked)"
  proof
    assume "a \<in> co_trl.truncate ` set (priority_violation ranked)"
    then have "a \<in> set ?V"
      by (auto simp: image_iff)
    then have "a \<in># mset ?V" by simp
    with V ab show False by simp
  qed
qed

text \<open>
  In a group of two where the row from Cloud A is reviewed with quality 1 as well and is
  the later one, every ranking returns the other reviewed row; so does every ranking of
  a group with a third row that is reviewed and later.
\<close>

lemma reviewed_row_returned_by_every_ranking:
  assumes "ranked_trl [reviewed_row, reviewed_cloud_row] ranked"
  shows "reviewed_row \<in> co_trl.truncate ` set (priority_violation ranked)"
  using assms
  by (rule better_row_makes_violation[where a = reviewed_cloud_row])
     (simp_all add: row_def partition_by_def priority_case_def holds_def sql_eq_def)

lemma reviewed_row_returned_in_larger_group:
  assumes "ranked_trl [reviewed_row, cloud_row, later_reviewed_row] ranked"
  shows "reviewed_row \<in> co_trl.truncate ` set (priority_violation ranked)"
  using assms
  by (rule better_row_makes_violation[where a = later_reviewed_row])
     (simp_all add: row_def partition_by_def priority_case_def holds_def sql_eq_def)

text \<open>
  C2, as the code has it. In any result of the ranking, of two rows with the same
  \<open>client_id\<close> and \<open>reference_year\<close> the one with the smaller tier has the smaller
  number, and with equal tiers the one acquired later has; the tier is 1 for
  \<open>manual_review_quality_id\<close> 1, else 2 for 2, else 3 for the source 'Cloud A', else 4
  for 'Perplexity (Sonar)', else 5. The result of "Priority Violation" is the rows whose
  number is not 1. In particular, for rows \<open>a\<close> and \<open>b\<close> with the same \<open>client_id\<close> and
  \<open>reference_year\<close>, \<open>a\<close> reviewed with quality 1 and \<open>b\<close> from the source 'Cloud A'
  and not reviewed with quality 1 or 2 (so \<open>b\<close> is of tier 3): \<open>b\<close> is returned, and
  when the table has no other row with that client and year, \<open>a\<close> is not.
\<close>

theorem priority_ranking_order:
  fixes z :: co_trl
  assumes rk: "ranked_trl tbl ranked"
  shows "((priority_case z = 1 \<longleftrightarrow> manual_review_quality_id z = Some 1) \<and>
          (priority_case z = 2 \<longleftrightarrow> manual_review_quality_id z = Some 2) \<and>
          (priority_case z = 3 \<longleftrightarrow>
             manual_review_quality_id z \<noteq> Some 1 \<and> manual_review_quality_id z \<noteq> Some 2 \<and>
             source z = Some ''Cloud A'') \<and>
          (priority_case z = 4 \<longleftrightarrow>
             manual_review_quality_id z \<noteq> Some 1 \<and> manual_review_quality_id z \<noteq> Some 2 \<and>
             source z = Some ''Perplexity (Sonar)'') \<and>
          (priority_case z = 5 \<longleftrightarrow>
             manual_review_quality_id z \<noteq> Some 1 \<and> manual_review_quality_id z \<noteq> Some 2 \<and>
             source z \<noteq> Some ''Cloud A'' \<and> source z \<noteq> Some ''Perplexity (Sonar)''))
       \<and> (x \<in> set ranked \<and> y \<in> set ranked \<and>
            client_id x = client_id y \<and> reference_year x = reference_year y \<and>
            (priority_case x < priority_case y \<or>
             priority_case x = priority_case y \<and> acq_date y < acq_date x)
          \<longrightarrow> rnk x < rnk y)
       \<and> (x \<in> set (priority_violation ranked) \<longleftrightarrow> x \<in> set ranked \<and> rnk x \<noteq> 1)
       \<and> (a \<in> set tbl \<and> b \<in> set tbl \<and>
            client_id a = client_id b \<and> reference_year a = reference_year b \<and>
            manual_review_quality_id a = Some 1 \<and> source b = Some ''Cloud A'' \<and>
            manual_review_quality_id b \<noteq> Some 1 \<and> manual_review_quality_id b \<noteq> Some 2
          \<longrightarrow> priority_case a = 1 \<and> priority_case b = 3 \<and>
              b \<in> co_trl.truncate ` set (priority_violation ranked) \<and>
              (mset (filter (\<lambda>r. client_id r = client_id a \<and> reference_year r = reference_year a) tbl)
                 = {#a, b#}
               \<longrightarrow> a \<notin> co_trl.truncate ` set (priority_violation ranked)))"
  using ranking_order_of_partition[OF rk, of z x y a b]
  unfolding partition_by_def prod.inject by blast

text \<open>
  In \<open>tie_break_table\<close> the two rows from Cloud A have the same tier and the later one
  gets the smaller number; the reviewed rows of client 2 and of the year 2023 do not
  count in the group of client 1 in 2022. In \<open>pair_table\<close> that group is \<open>reviewed_row\<close>
  and \<open>cloud_row\<close>: the second is returned, the first is not.
\<close>

theorem priority_ranking_order_witness:
  "priority_violation (ranked_trl_stable tie_break_table) =
     [with_rnk late_cloud_row 2, with_rnk cloud_row 3]
   \<and> priority_case late_cloud_row = priority_case cloud_row
   \<and> acq_date cloud_row < acq_date late_cloud_row
   \<and> with_rnk late_cloud_row 2 \<in> set (ranked_trl_stable tie_break_table)
   \<and> with_rnk cloud_row 3 \<in> set (ranked_trl_stable tie_break_table)
   \<and> rnk (with_rnk late_cloud_row 2) < rnk (with_rnk cloud_row 3)
   \<and> priority_case reviewed_row = 1 \<and> priority_case cloud_row = 3
   \<and> cloud_row \<in> co_trl.truncate ` set (priority_violation (ranked_trl_stable pair_table))
   \<and> reviewed_row \<notin> co_trl.truncate ` set (priority_violation (ranked_trl_stable pair_table))"
proof -
  have ranked: "ranked_trl_stable tie_break_table =
      [with_rnk reviewed_row 1, with_rnk late_cloud_row 2, with_rnk cloud_row 3,
       with_rnk other_client_row 1, with_rnk next_year_row 1]"
    by (simp add: eval_defs)
  have result: "priority_violation (ranked_trl_stable tie_break_table) =
      [with_rnk late_cloud_row 2, with_rnk cloud_row 3]"
    "priority_violation (ranked_trl_stable pair_table) = [with_rnk cloud_row 2]"
    by (simp_all add: eval_defs)
  have tie: "priority_case late_cloud_row = priority_case cloud_row"
    "acq_date cloud_row < acq_date late_cloud_row"
    by (simp_all add: row_def priority_case_def holds_def sql_eq_def)
  have pair: "reviewed_row \<in> set pair_table" "cloud_row \<in> set pair_table"
    "client_id reviewed_row = client_id cloud_row"
    "reference_year reviewed_row = reference_year cloud_row"
    "manual_review_quality_id reviewed_row = Some 1" "source cloud_row = Some ''Cloud A''"
    "manual_review_quality_id cloud_row \<noteq> Some 1" "manual_review_quality_id cloud_row \<noteq> Some 2"
    "mset (filter (\<lambda>r. client_id r = client_id reviewed_row \<and>
                         reference_year r = reference_year reviewed_row) pair_table)
     = {#reviewed_row, cloud_row#}"
    by (simp_all add: row_def)
  show ?thesis
    using ranked result tie pair
      priority_ranking_order[OF ranked_trl_stable_ok,
        where x = "with_rnk late_cloud_row 2" and tbl = tie_break_table
          and y = "with_rnk cloud_row 3" and a = reviewed_row and b = cloud_row and z = cloud_row]
      priority_ranking_order[OF ranked_trl_stable_ok,
        where x = "with_rnk cloud_row 2" and tbl = pair_table
          and y = "with_rnk cloud_row 2" and a = reviewed_row and b = cloud_row and z = reviewed_row]
    by (simp add: with_rnk_def co_trl.defs ranked_row.defs row_def)
qed

text \<open>
  The example of C2 as it is written fails. Row A is reviewed with quality 1 and Row B
  is from the source 'Cloud A', with the same client and year, and Row A is returned
  while Row B is not: when Row B is reviewed with quality 1 too and is the later one.
  And Row A is returned along with Row B when the group has a third row, reviewed with
  quality 1 and later than Row A. The dates are distinct, so these are the only
  rankings of the two tables.
\<close>

theorem quality_one_row_returned:
  "manual_review_quality_id reviewed_row = Some 1
   \<and> source reviewed_cloud_row = Some ''Cloud A''
   \<and> client_id reviewed_row = client_id reviewed_cloud_row
   \<and> reference_year reviewed_row = reference_year reviewed_cloud_row
   \<and> ranked_trl [reviewed_row, reviewed_cloud_row]
        [with_rnk reviewed_cloud_row 1, with_rnk reviewed_row 2]
   \<and> priority_violation [with_rnk reviewed_cloud_row 1, with_rnk reviewed_row 2] =
        [with_rnk reviewed_row 2]
   \<and> source cloud_row = Some ''Cloud A''
   \<and> client_id reviewed_row = client_id cloud_row
   \<and> reference_year reviewed_row = reference_year cloud_row
   \<and> ranked_trl [reviewed_row, cloud_row, later_reviewed_row]
        [with_rnk later_reviewed_row 1, with_rnk reviewed_row 2, with_rnk cloud_row 3]
   \<and> priority_violation
        [with_rnk later_reviewed_row 1, with_rnk reviewed_row 2, with_rnk cloud_row 3] =
        [with_rnk reviewed_row 2, with_rnk cloud_row 3]"
  by (simp add: ranked_trl_def row_number_ok_def priority_violation_eq partition_by_def
      order_by_def priority_case_def holds_def sql_eq_def row_def with_rnk_def
      co_trl.defs ranked_row.defs upt_rec)

section \<open>The column rnk\<close>

lemma rank_column_of_partition:
  assumes rk: "ranked_trl tbl ranked" and x: "x \<in> set (priority_violation ranked)"
  shows "1 < rnk x
       \<and> co_trl.truncate x \<in> set tbl
       \<and> rnk x \<le> length (filter (\<lambda>r. partition_by r = partition_by x) tbl)
       \<and> sort_key rnk (filter (\<lambda>y. partition_by y = partition_by x) ranked) ! (rnk x - 1) = x
       \<and> sorted (map order_by (sort_key rnk (filter (\<lambda>y. partition_by y = partition_by x) ranked)))
       \<and> mset (map co_trl.truncate (sort_key rnk (filter (\<lambda>y. partition_by y = partition_by x) ranked)))
           = mset (filter (\<lambda>r. partition_by r = partition_by x) tbl)
       \<and> set (invalid_non_extrapolated_null_rationale tbl) \<subseteq> set tbl
       \<and> set (invalid_backward_extrapolation tbl) \<subseteq> set tbl
       \<and> set (duplicate_trl_entries tbl) \<subseteq> set tbl
       \<and> set (null_rationale_not_extrapolated tbl) \<subseteq> set tbl
       \<and> set (extrapolated_rows_with_rationale tbl) \<subseteq> set tbl"
proof -
  let ?g = "filter (\<lambda>y. partition_by y = partition_by x) ranked"
  let ?G = "filter (\<lambda>r. partition_by r = partition_by x) tbl"
  from x have xr: "x \<in> set ranked" and gt: "1 < rnk x"
    by (simp_all add: priority_violation_eq)
  have ok: "row_number_ok ?g"
    by (rule ranked_trl_group[OF rk xr])
  have xg: "x \<in> set ?g"
    using xr by simp
  have part: "mset (map co_trl.truncate ?g) = mset ?G"
    using rk by (intro ranked_partition) (simp add: ranked_trl_def)
  have "length ?g = size (mset (map co_trl.truncate ?g))"
    by (simp only: size_mset length_map)
  also have "\<dots> = length ?G"
    by (simp only: part size_mset)
  finally have len: "length ?g = length ?G" .
  have nth: "rnk x \<le> length ?g" "sort_key rnk ?g ! (rnk x - 1) = x"
    using row_number_ok_nth[OF ok xg] by simp_all
  have srt: "sorted (map order_by (sort_key rnk ?g))"
    using ok by (simp add: row_number_ok_def)
  have "mset (map co_trl.truncate (sort_key rnk ?g)) = mset (map co_trl.truncate ?g)"
    by (simp only: mset_map mset_sort)
  then have perm: "mset (map co_trl.truncate (sort_key rnk ?g)) = mset ?G"
    by (simp only: part)
  have tr: "co_trl.truncate x \<in> set tbl"
    using xr ranked_trl_set[OF rk] by blast
  have others: "set (invalid_non_extrapolated_null_rationale tbl) \<subseteq> set tbl"
    "set (invalid_backward_extrapolation tbl) \<subseteq> set tbl"
    "set (duplicate_trl_entries tbl) \<subseteq> set tbl"
    "set (null_rationale_not_extrapolated tbl) \<subseteq> set tbl"
    "set (extrapolated_rows_with_rationale tbl) \<subseteq> set tbl"
    by (simp_all add: invalid_non_extrapolated_null_rationale_eq invalid_backward_extrapolation_eq
        duplicate_trl_entries_eq null_rationale_not_extrapolated_eq
        extrapolated_rows_with_rationale_eq)
  show ?thesis
    using gt tr nth(1)[unfolded len] nth(2) srt perm others by (intro conjI)
qed

text \<open>The order of the \<^verbatim>\<open>ORDER BY\<close>, on the columns: the tier, then the later date first.\<close>

lemma sorted_order_by_iff:
  "sorted (map order_by xs) \<longleftrightarrow>
     sorted_wrt (\<lambda>u v. priority_case u < priority_case v \<or>
                   priority_case u = priority_case v \<and> acq_date v \<le> acq_date u) xs"
proof -
  have "(\<lambda>u v. order_by u \<le> order_by v) =
        (\<lambda>u v. priority_case u < priority_case v \<or>
                priority_case u = priority_case v \<and> acq_date v \<le> acq_date u)"
    by (intro ext) (auto simp: order_by_def less_eq_prod_def)
  then have "sorted_wrt (\<lambda>u v. order_by u \<le> order_by v) xs =
        sorted_wrt (\<lambda>u v. priority_case u < priority_case v \<or>
                priority_case u = priority_case v \<and> acq_date v \<le> acq_date u) xs"
    by (rule arg_cong[where f = "\<lambda>R. sorted_wrt R xs"])
  then show ?thesis
    by (simp only: sorted_map)
qed

text \<open>
  C10. A row of the result of "Priority Violation" is a row of the table with one more
  column, \<open>rnk\<close> (the type \<open>ranked_row\<close>), and its \<open>rnk\<close> is greater than 1. The \<open>rnk\<close>
  is the row's rank in its group, the rows with its \<open>client_id\<close> and \<open>reference_year\<close>:
  listed by \<open>rnk\<close>, the ranked rows of the group are the rows the table has for the
  group, by tier and within a tier by date, the later first, and the row stands at place
  \<open>rnk\<close>. The five other rules return rows of the table as they are (the type \<open>co_trl\<close>,
  which has no \<open>rnk\<close>).
\<close>

theorem priority_violation_rank_column:
  assumes rk: "ranked_trl tbl ranked" and x: "x \<in> set (priority_violation ranked)"
  shows "1 < rnk x
       \<and> co_trl.truncate x \<in> set tbl
       \<and> rnk x \<le> length (filter (\<lambda>r. client_id r = client_id x \<and> reference_year r = reference_year x) tbl)
       \<and> sort_key rnk (filter (\<lambda>y. client_id y = client_id x \<and> reference_year y = reference_year x) ranked)
           ! (rnk x - 1) = x
       \<and> sorted_wrt (\<lambda>u v. priority_case u < priority_case v \<or>
                         priority_case u = priority_case v \<and> acq_date v \<le> acq_date u)
           (sort_key rnk (filter (\<lambda>y. client_id y = client_id x \<and> reference_year y = reference_year x) ranked))
       \<and> mset (map co_trl.truncate
             (sort_key rnk (filter (\<lambda>y. client_id y = client_id x \<and> reference_year y = reference_year x) ranked)))
           = mset (filter (\<lambda>r. client_id r = client_id x \<and> reference_year r = reference_year x) tbl)
       \<and> set (invalid_non_extrapolated_null_rationale tbl) \<subseteq> set tbl
       \<and> set (invalid_backward_extrapolation tbl) \<subseteq> set tbl
       \<and> set (duplicate_trl_entries tbl) \<subseteq> set tbl
       \<and> set (null_rationale_not_extrapolated tbl) \<subseteq> set tbl
       \<and> set (extrapolated_rows_with_rationale tbl) \<subseteq> set tbl"
  using rank_column_of_partition[OF rk x]
  unfolding partition_by_def prod.inject sorted_order_by_iff by blast

text \<open>
  In \<open>tie_break_table\<close> the row \<open>cloud_row\<close> is the third of its group, after
  \<open>reviewed_row\<close> and \<open>late_cloud_row\<close>; in the whole table it would be the fifth.
\<close>

theorem priority_violation_rank_column_witness:
  "with_rnk cloud_row 3 \<in> set (priority_violation (ranked_trl_stable tie_break_table))
   \<and> 1 < rnk (with_rnk cloud_row 3)
   \<and> co_trl.truncate (with_rnk cloud_row 3) \<in> set tie_break_table
   \<and> rnk (with_rnk cloud_row 3) \<le>
       length (filter (\<lambda>r. client_id r = client_id (with_rnk cloud_row 3) \<and>
                            reference_year r = reference_year (with_rnk cloud_row 3)) tie_break_table)
   \<and> sort_key rnk (filter (\<lambda>y. client_id y = client_id (with_rnk cloud_row 3) \<and>
                                  reference_year y = reference_year (with_rnk cloud_row 3))
        (ranked_trl_stable tie_break_table)) =
       [with_rnk reviewed_row 1, with_rnk late_cloud_row 2, with_rnk cloud_row 3]
   \<and> sort_key rnk (filter (\<lambda>y. client_id y = client_id (with_rnk cloud_row 3) \<and>
                                  reference_year y = reference_year (with_rnk cloud_row 3))
        (ranked_trl_stable tie_break_table)) ! (rnk (with_rnk cloud_row 3) - 1)
      = with_rnk cloud_row 3"
proof -
  have "with_rnk cloud_row 3 \<in> set (priority_violation (ranked_trl_stable tie_break_table))"
    by (simp add: eval_defs)
  from this priority_violation_rank_column[OF ranked_trl_stable_ok this]
  show ?thesis
    by (simp add: eval_defs with_rnk_def co_trl.defs ranked_row.defs)
qed

section \<open>The ranking of a table with distinct dates\<close>

text \<open>Distinct dates make the sort key tell the rows of a partition apart.\<close>

lemma distinct_order_by:
  assumes "distinct (map acq_date G)"
  shows "distinct (map order_by G)" and "inj_on order_by (set G)"
proof -
  have inj: "inj_on acq_date (set G)" and d: "distinct G"
    using assms by (simp_all add: distinct_map)
  show "inj_on order_by (set G)"
  proof (rule inj_onI)
    fix a b assume "a \<in> set G" "b \<in> set G" "order_by a = order_by b"
    then have "acq_date a = acq_date b"
      by (simp add: order_by_def)
    with \<open>a \<in> set G\<close> \<open>b \<in> set G\<close> show "a = b"
      using inj by (simp add: inj_on_def)
  qed
  then show "distinct (map order_by G)"
    using d by (simp add: distinct_map)
qed

lemma by_rnk_unique:
  assumes ok: "row_number_ok g"
    and part: "mset (map co_trl.truncate g) = mset G"
    and d: "distinct (map acq_date G)"
  shows "map co_trl.truncate (sort_key rnk g) = sort_key order_by G"
    and "map rnk (sort_key rnk g) = [1..<Suc (length G)]"
proof -
  let ?bs = "map co_trl.truncate (sort_key rnk g)"
  have m: "mset ?bs = mset G"
    using part by (simp only: mset_map mset_sort)
  have "map order_by ?bs = map order_by (sort_key rnk g)"
    by (simp add: o_def)
  then have s: "sorted (map order_by ?bs)"
    using ok by (simp only: row_number_ok_def)
  have "mset (map order_by ?bs) = mset (map order_by G)"
    using m by (simp only: mset_map)
  then have dk: "distinct (map order_by ?bs)"
    using distinct_order_by(1)[OF d] by (metis mset_eq_imp_distinct_iff)
  have setbs: "set ?bs = set G"
    using m by (metis set_mset_mset)
  show "?bs = sort_key order_by G"
  proof (rule map_sorted_distinct_set_unique[where f = order_by])
    show "inj_on order_by (set ?bs \<union> set (sort_key order_by G))"
      using distinct_order_by(2)[OF d] setbs by simp
    show "sorted (map order_by ?bs)" by (rule s)
    show "distinct (map order_by ?bs)" by (rule dk)
    show "sorted (map order_by (sort_key order_by G))" by (rule sorted_sort_key)
    show "distinct (map order_by (sort_key order_by G))"
      using distinct_order_by(1)[OF d] by (metis mset_eq_imp_distinct_iff mset_map mset_sort)
    show "set ?bs = set (sort_key order_by G)"
      using setbs by simp
  qed
  have "length g = size (mset (map co_trl.truncate g))"
    by (simp only: size_mset length_map)
  also have "\<dots> = length G"
    by (simp only: part size_mset)
  finally show "map rnk (sort_key rnk g) = [1..<Suc (length G)]"
    using ok by (simp add: row_number_ok_def del: upt_Suc)
qed

lemma ranked_rows_eqI:
  fixes xs ys :: "ranked_row list"
  assumes "map co_trl.truncate xs = map co_trl.truncate ys" and "map rnk xs = map rnk ys"
  shows "xs = ys"
proof -
  have z: "map (\<lambda>x. (co_trl.truncate x, rnk x)) zs = zip (map co_trl.truncate zs) (map rnk zs)"
    for zs :: "ranked_row list"
    by (induction zs) simp_all
  have "map (\<lambda>x. (co_trl.truncate x, rnk x)) xs = map (\<lambda>x. (co_trl.truncate x, rnk x)) ys"
    unfolding z by (simp only: assms)
  moreover have "inj (\<lambda>x :: ranked_row. (co_trl.truncate x, rnk x))"
    by (rule injI) (simp add: ranked_row_eq_iff)
  ultimately show ?thesis
    by (simp add: inj_map_eq_map)
qed

lemma ranked_group_empty:
  assumes rk: "ranked_trl tbl ranked" and k: "k \<notin> partition_by ` set tbl"
  shows "filter (\<lambda>x. partition_by x = k) ranked = []"
proof -
  have "partition_by y \<noteq> k" if "y \<in> set ranked" for y
  proof -
    have "co_trl.truncate y \<in> set tbl"
      using that ranked_trl_set[OF rk] by blast
    then have "partition_by (co_trl.truncate y) \<noteq> k"
      using k by blast
    then show ?thesis by simp
  qed
  then show ?thesis
    by (simp add: filter_empty_conv)
qed

lemma ranked_group_unique:
  assumes rk1: "ranked_trl tbl ranked1" and rk2: "ranked_trl tbl ranked2"
    and d: "\<And>k. distinct (map acq_date (filter (\<lambda>r. partition_by r = k) tbl))"
  shows "mset (filter (\<lambda>x. partition_by x = k) ranked1) =
         mset (filter (\<lambda>x. partition_by x = k) ranked2)"
proof (cases "k \<in> partition_by ` set tbl")
  case False
  show ?thesis
    by (simp only: ranked_group_empty[OF rk1 False] ranked_group_empty[OF rk2 False])
next
  case True
  then obtain r where r: "r \<in> set tbl" "partition_by r = k"
    by auto
  let ?g1 = "filter (\<lambda>x. partition_by x = k) ranked1"
  let ?g2 = "filter (\<lambda>x. partition_by x = k) ranked2"
  let ?G = "filter (\<lambda>r. partition_by r = k) tbl"
  have ok1: "row_number_ok ?g1" and ok2: "row_number_ok ?g2"
    using ranked_trl_group_of_row[OF rk1 r(1)] ranked_trl_group_of_row[OF rk2 r(1)]
    by (simp_all add: r(2))
  have p1: "mset (map co_trl.truncate ?g1) = mset ?G"
    using rk1 by (intro ranked_partition) (simp add: ranked_trl_def)
  have p2: "mset (map co_trl.truncate ?g2) = mset ?G"
    using rk2 by (intro ranked_partition) (simp add: ranked_trl_def)
  have "sort_key rnk ?g1 = sort_key rnk ?g2"
    by (rule ranked_rows_eqI)
       (simp_all only: by_rnk_unique[OF ok1 p1 d] by_rnk_unique[OF ok2 p2 d])
  then have "mset (sort_key rnk ?g1) = mset (sort_key rnk ?g2)"
    by simp
  then show ?thesis
    by (simp only: mset_sort)
qed

text \<open>
  C4. When the dates \<open>acq_date\<close> are pairwise distinct within every group of the table,
  any two results of the ranking hold the same rows with the same numbers. So two
  evaluations choose the same canonical rows (the rows numbered 1) and give the same
  rows for "Priority Violation".
\<close>

theorem ranking_deterministic:
  assumes rk1: "ranked_trl tbl ranked1" and rk2: "ranked_trl tbl ranked2"
    and d: "\<And>c y. distinct (map acq_date
                (filter (\<lambda>r. client_id r = c \<and> reference_year r = y) tbl))"
  shows "mset ranked1 = mset ranked2
       \<and> mset (filter (\<lambda>x. rnk x = 1) ranked1) = mset (filter (\<lambda>x. rnk x = 1) ranked2)
       \<and> mset (priority_violation ranked1) = mset (priority_violation ranked2)
       \<and> set (priority_violation ranked1) = set (priority_violation ranked2)"
proof -
  have dk: "distinct (map acq_date (filter (\<lambda>r. partition_by r = k) tbl))" for k
    using d[of "fst k" "snd k"] by (simp add: partition_by_def prod_eq_iff)
  have all: "mset ranked1 = mset ranked2"
  proof (rule multiset_eqI)
    fix x
    have "count (mset ranked1) x = count (mset (filter (\<lambda>y. partition_by y = partition_by x) ranked1)) x"
      by simp
    also have "\<dots> = count (mset (filter (\<lambda>y. partition_by y = partition_by x) ranked2)) x"
      by (simp only: ranked_group_unique[OF rk1 rk2 dk])
    also have "\<dots> = count (mset ranked2) x"
      by simp
    finally show "count (mset ranked1) x = count (mset ranked2) x" .
  qed
  then have f: "mset (filter P ranked1) = mset (filter P ranked2)" for P
    by (simp only: mset_filter)
  have "set (priority_violation ranked1) = set (priority_violation ranked2)"
    using f[of "\<lambda>x. 1 < rnk x"] unfolding priority_violation_eq by (rule mset_eq_setD)
  then show ?thesis
    using all f[of "\<lambda>x. rnk x = 1"] f[of "\<lambda>x. 1 < rnk x"]
    by (simp only: priority_violation_eq simp_thms)
qed

text \<open>
  A ranking of \<open>pair_table\<close> written in another order of rows than the stable engine
  gives: the same rows with the same numbers, and the same one row returned.
\<close>

theorem ranking_deterministic_witness:
  "ranked_trl pair_table
     [with_rnk next_year_row 1, with_rnk cloud_row 2, with_rnk other_client_row 1,
      with_rnk reviewed_row 1]
   \<and> mset [with_rnk next_year_row 1, with_rnk cloud_row 2, with_rnk other_client_row 1,
           with_rnk reviewed_row 1] =
       mset (ranked_trl_stable pair_table)
   \<and> set (priority_violation
         [with_rnk next_year_row 1, with_rnk cloud_row 2, with_rnk other_client_row 1,
          with_rnk reviewed_row 1]) =
       set (priority_violation (ranked_trl_stable pair_table))
   \<and> set (priority_violation (ranked_trl_stable pair_table)) = {with_rnk cloud_row 2}"
proof -
  have 1: "ranked_trl pair_table
      [with_rnk next_year_row 1, with_rnk cloud_row 2, with_rnk other_client_row 1,
       with_rnk reviewed_row 1]"
    by (simp add: ranked_trl_def row_number_ok_def partition_by_def
      order_by_def priority_case_def holds_def sql_eq_def row_def with_rnk_def
      co_trl.defs ranked_row.defs upt_rec)
  have 2: "distinct (map acq_date
      (filter (\<lambda>r. client_id r = c \<and> reference_year r = y) pair_table))" for c y
    by (simp add: row_def)
  have 3: "set (priority_violation (ranked_trl_stable pair_table)) = {with_rnk cloud_row 2}"
    by (simp add: eval_defs)
  from 1 3 ranking_deterministic[OF 1 ranked_trl_stable_ok 2]
  show ?thesis by (simp only: simp_thms)
qed

text \<open>
  Without the condition the ranking is not determined: two rows of one group with the
  same tier and the same date may be numbered either way, and the two results of
  "Priority Violation" differ.
\<close>

lemma ranking_ambiguous_on_ties:
  "ranked_trl [tie_row_1, tie_row_2] [with_rnk tie_row_1 1, with_rnk tie_row_2 2]
   \<and> ranked_trl [tie_row_1, tie_row_2] [with_rnk tie_row_1 2, with_rnk tie_row_2 1]
   \<and> priority_violation [with_rnk tie_row_1 1, with_rnk tie_row_2 2] = [with_rnk tie_row_2 2]
   \<and> priority_violation [with_rnk tie_row_1 2, with_rnk tie_row_2 1] = [with_rnk tie_row_1 2]"
  by (simp add: ranked_trl_def row_number_ok_def priority_violation_eq partition_by_def
      order_by_def priority_case_def holds_def sql_eq_def row_def with_rnk_def
      co_trl.defs ranked_row.defs upt_rec)

section \<open>A name that is not in the catalog\<close>

lemma run_checks_unknown:
  assumes "name \<notin> fst ` set checks"
  shows "run_checks read_sql (name # names) s =
           (s\<lparr>shown := shown s @ [Subheader name]\<rparr>, Some (KeyError name))"
proof -
  have "map_of checks name = None"
    using assms by (simp add: map_of_eq_None_iff)
  then show ?thesis by simp
qed

lemma run_checks_append:
  "run_checks read_sql (xs @ ys) s =
     (case run_checks read_sql xs s of
        (s', None) \<Rightarrow> run_checks read_sql ys s'
      | (s', Some e) \<Rightarrow> (s', Some e))"
proof (induction xs arbitrary: s)
  case Nil
  show ?case by simp
next
  case (Cons x xs)
  show ?case
    by (simp add: Cons.IH Let_def split: option.splits sum.splits)
qed

text \<open>
  C8. The page only offers the names of the catalog; the loop is modelled for any list
  of names. For a name that is not a key of \<open>checks\<close>, the run of that name alone ends
  with \<open>KeyError\<close> (the spec's UnknownRuleError) and has submitted no query. In a longer
  selection the run fails, and the queries submitted are those of the names before the
  unknown one: none for it, none after it; if the names before it went through, the
  error is the \<open>KeyError\<close> of the unknown name.
\<close>

theorem unknown_rule_fails:
  assumes "name \<notin> fst ` set checks"
  shows "run_selected read_sql [name] =
           (\<lparr>submitted = [], shown = [Subheader name]\<rparr>, Some (KeyError name))
       \<and> snd (run_checks read_sql (before @ name # rest) s) \<noteq> None
       \<and> submitted (fst (run_checks read_sql (before @ name # rest) s)) =
           submitted (fst (run_checks read_sql before s))
       \<and> (snd (run_checks read_sql before s) = None \<longrightarrow>
           snd (run_checks read_sql (before @ name # rest) s) = Some (KeyError name))"
proof -
  obtain s' e where b: "run_checks read_sql before s = (s', e)"
    by (cases "run_checks read_sql before s")
  have one: "run_selected read_sql [name] =
           (\<lparr>submitted = [], shown = [Subheader name]\<rparr>, Some (KeyError name))"
    unfolding run_selected_def by (simp add: run_checks_unknown[OF assms] del: run_checks.simps)
  show ?thesis
  proof (cases e)
    case None
    then show ?thesis
      using one b by (simp add: run_checks_append run_checks_unknown[OF assms] del: run_checks.simps)
  next
    case (Some err)
    then show ?thesis
      using one b by (simp add: run_checks_append del: run_checks.simps)
  qed
qed

theorem unknown_rule_fails_witness:
  "''No such rule'' \<notin> fst ` set checks
   \<and> run_selected (read_sql_on [lone_row]) [''No such rule''] =
       (\<lparr>submitted = [], shown = [Subheader ''No such rule'']\<rparr>, Some (KeyError ''No such rule''))
   \<and> submitted (fst (run_checks (read_sql_on [lone_row])
         ([''Extrapolated Rows with Rationale''] @ ''No such rule'' # [''Priority Violation''])
         \<lparr>submitted = [], shown = []\<rparr>)) = [Q_extrapolated_rows_with_rationale]
   \<and> snd (run_checks (read_sql_on [lone_row])
         ([''Extrapolated Rows with Rationale''] @ ''No such rule'' # [''Priority Violation''])
         \<lparr>submitted = [], shown = []\<rparr>) = Some (KeyError ''No such rule'')"
proof -
  have h: "''No such rule'' \<notin> fst ` set checks"
    by (simp add: checks_def)
  have before: "run_checks (read_sql_on [lone_row]) [''Extrapolated Rows with Rationale'']
      \<lparr>submitted = [], shown = []\<rparr> =
      (\<lparr>submitted = [Q_extrapolated_rows_with_rationale],
        shown = [Subheader ''Extrapolated Rows with Rationale'',
                 Markdown ''**Logic:** Extrapolated rows that unexpectedly have rationale.'',
                 Info 0, Show_dataframe (Rows [])]\<rparr>, None)"
    by (simp add: checks_def read_sql_on_def extrapolated_rows_with_rationale_eq row_def)
  show ?thesis
    using h unknown_rule_fails[OF h, of "read_sql_on [lone_row]"
        "[''Extrapolated Rows with Rationale'']" "[''Priority Violation'']"
        "\<lparr>submitted = [], shown = []\<rparr>"]
    by (simp only: before fst_conv snd_conv run_state.simps simp_thms)
qed

end
